theory Spec2Isabelle
  imports Main "HOL-Library.Word"
begin

section \<open>The PWM fading blinky sample (src/blinky/src/main.c)\<close>

text \<open>
  The program drives four PWM LEDs through a fade-in, hold, fade-out cycle. Everything it
  does to the outside world is a call of \<open>device_is_ready\<close>, \<open>pwm_set_dt\<close>,
  \<open>k_msleep\<close> or \<open>printk\<close>. The model threads a \<open>world\<close> through the program that
  records these calls in order; what the platform answers is given by an \<open>env\<close>.

  The repository holds a second, commented copy of main.c. It differs from the one
  modelled here in its comments, in the wording of two console messages, and in two more
  calls of \<open>printk\<close> (one after the banner, one after \<open>turn_off_all_leds\<close>); the
  calls of \<open>device_is_ready\<close>, \<open>pwm_set_dt\<close> and \<open>k_msleep\<close> are the same.
\<close>

subsection \<open>Machine integers and configuration macros\<close>

type_synonym u32 = "32 word"  \<comment> \<open>\<open>uint32_t\<close>, \<open>unsigned int\<close>\<close>
type_synonym s32 = "32 word"  \<comment> \<open>C \<open>int\<close>: the same 32 bits, read with \<open>sint\<close>\<close>
type_synonym u8 = "8 word"    \<comment> \<open>\<open>uint8_t\<close>\<close>

text \<open>
  The three configuration macros. \<open>PWM_PERIOD_US\<close> carries the suffix \<open>U\<close>, so it is an
  \<open>unsigned int\<close>; \<open>FADE_STEPS\<close> and \<open>FADE_STEP_MS\<close> are plain \<open>int\<close> literals.
  The functions below take the macros from a record, so that a property can be stated for
  every configuration; \<open>shipped\<close> holds the values main.c defines.
\<close>

record config =
  PWM_PERIOD_US :: u32
  FADE_STEP_MS :: int
  FADE_STEPS :: s32

definition shipped :: config where
  "shipped = \<lparr>PWM_PERIOD_US = 1000, FADE_STEP_MS = 10, FADE_STEPS = 100\<rparr>"

text \<open>\<open>NUM_LEDS\<close> is \<open>ARRAY_SIZE(pwm_leds)\<close>; an LED is identified by its index in
  \<open>pwm_leds\<close>.\<close>

definition NUM_LEDS :: nat where
  "NUM_LEDS = 4"

subsection \<open>The platform\<close>

datatype message =
    Banner                 \<comment> \<open>\<open>"PWM Fading Blinky Sample for nRF5340 DK\n"\<close>\<close>
  | NotReady nat           \<comment> \<open>\<open>"Error: PWM device %s is not ready\n"\<close>, with the device of LED i\<close>
  | Ready nat              \<comment> \<open>\<open>"PWM LED %d ready\n"\<close>\<close>
  | Fading nat             \<comment> \<open>\<open>"Fading LED %d\n"\<close>\<close>
  | PwmError int           \<comment> \<open>\<open>"Error setting PWM: %d\n"\<close>\<close>
  | BrightnessError int    \<comment> \<open>\<open>"Error setting PWM brightness: %d\n"\<close>\<close>

datatype event =
    ReadyCheck nat         \<comment> \<open>\<open>device_is_ready(pwm_leds[i]->dev)\<close>\<close>
  | PwmSet nat u32 u32     \<comment> \<open>\<open>pwm_set_dt(pwm_leds[i], period, pulse)\<close>\<close>
  | Sleep int              \<comment> \<open>\<open>k_msleep(ms)\<close>\<close>
  | Print message          \<comment> \<open>\<open>printk(...)\<close>\<close>
  | SignedOverflow         \<comment> \<open>\<open>step++\<close> at \<open>INT_MAX\<close>: undefined behaviour from here on\<close>

text \<open>
  The answers of the platform: whether the device of an LED is ready, and the return code
  of the n-th call of \<open>pwm_set_dt\<close> the program makes (counted from 0 over the whole
  run). The program is deterministic, so a sequence of return codes covers every way a
  driver can behave towards it.
\<close>

record env =
  device_is_ready :: "nat \<Rightarrow> bool"
  pwm_ret :: "nat \<Rightarrow> int"

record world =
  pwm_calls :: nat
  trace :: "event list"

definition boot :: world where
  "boot = \<lparr>pwm_calls = 0, trace = []\<rparr>"

definition emit :: "event \<Rightarrow> world \<Rightarrow> world" where
  "emit e w = w\<lparr>trace := trace w @ [e]\<rparr>"

definition printk :: "message \<Rightarrow> world \<Rightarrow> world" where
  "printk m w = emit (Print m) w"

definition k_msleep :: "int \<Rightarrow> world \<Rightarrow> world" where
  "k_msleep ms w = emit (Sleep ms) w"

definition pwm_set_dt :: "env \<Rightarrow> nat \<Rightarrow> u32 \<Rightarrow> u32 \<Rightarrow> world \<Rightarrow> int \<times> world" where
  "pwm_set_dt e led period pulse w =
     (pwm_ret e (pwm_calls w),
      emit (PwmSet led period pulse) (w\<lparr>pwm_calls := Suc (pwm_calls w)\<rparr>))"

subsection \<open>fade_led\<close>

text \<open>
  Lines 75 to 79. In \<open>PWM_PERIOD_US * step\<close> the \<open>int\<close> operand is converted to
  \<open>unsigned int\<close> (\<open>word_of_int\<close>), the product wraps modulo \<open>2 ^ 32\<close>, and the
  division is the unsigned one, by \<open>FADE_STEPS\<close> converted to \<open>unsigned int\<close> (the same
  bits). \<open>FADE_STEPS - step\<close> is computed in \<open>int\<close> before the conversion.
  With \<open>FADE_STEPS = 0\<close> the C expression divides by zero; the properties below are
  stated for \<open>FADE_STEPS \<ge> 1\<close>.
\<close>

definition pulse_width :: "config \<Rightarrow> bool \<Rightarrow> int \<Rightarrow> u32" where
  "pulse_width cfg fade_in step =
     (if fade_in then (PWM_PERIOD_US cfg * word_of_int step) div FADE_STEPS cfg
      else (PWM_PERIOD_US cfg * word_of_int (sint (FADE_STEPS cfg) - step)) div FADE_STEPS cfg)"

text \<open>The largest value of a C \<open>int\<close>.\<close>

definition INT_MAX :: int where
  "INT_MAX = 2 ^ 31 - 1"

text \<open>
  The \<open>for\<close> loop of lines 74 to 88, entered with the current value of \<open>step\<close>. A
  failed write (\<open>ret < 0\<close>) prints the code and returns; \<open>fade_led\<close> is a \<open>void\<close>
  function, so the world is all it hands back.

  The counter is an \<open>int\<close>. With \<open>FADE_STEPS = INT_MAX\<close> the condition
  \<open>step <= FADE_STEPS\<close> holds of every \<open>int\<close>, and \<open>step++\<close> at \<open>INT_MAX\<close>
  overflows, which C leaves undefined: the loop has no regular exit there. The model
  records the overflow as the event \<open>SignedOverflow\<close> and follows the call no further;
  what a trace shows after that event says nothing about the program. For every other value
  of \<open>FADE_STEPS\<close> the counter stays between 0 and \<open>FADE_STEPS + 1 \<le> INT_MAX\<close>.
\<close>

function fade_loop :: "config \<Rightarrow> env \<Rightarrow> nat \<Rightarrow> bool \<Rightarrow> int \<Rightarrow> world \<Rightarrow> world" where
  "fade_loop cfg e led fade_in step w =
     (if step \<le> sint (FADE_STEPS cfg) then
        (let r = pwm_set_dt e led (PWM_PERIOD_US cfg) (pulse_width cfg fade_in step) w in
         if fst r < 0 then printk (PwmError (fst r)) (snd r)
         else if step = INT_MAX then emit SignedOverflow (k_msleep (FADE_STEP_MS cfg) (snd r))
         else fade_loop cfg e led fade_in (step + 1) (k_msleep (FADE_STEP_MS cfg) (snd r)))
      else w)"
  by pat_completeness auto
termination
  by (relation "measure (\<lambda>(cfg, e, led, fade_in, step, w). nat (sint (FADE_STEPS cfg) + 1 - step))")
    auto

definition fade_led :: "config \<Rightarrow> env \<Rightarrow> nat \<Rightarrow> bool \<Rightarrow> world \<Rightarrow> world" where
  "fade_led cfg e led fade_in w = fade_loop cfg e led fade_in 0 w"

subsection \<open>set_led_brightness and turn_off_all_leds\<close>

text \<open>Lines 96 to 104. \<open>brightness\<close> is a \<open>uint8_t\<close>, promoted and converted to
  \<open>unsigned int\<close> (\<open>ucast\<close>); the divisor is the literal 100.\<close>

definition brightness_pulse :: "config \<Rightarrow> u8 \<Rightarrow> u32" where
  "brightness_pulse cfg brightness = (PWM_PERIOD_US cfg * ucast brightness) div 100"

definition set_led_brightness :: "config \<Rightarrow> env \<Rightarrow> nat \<Rightarrow> u8 \<Rightarrow> world \<Rightarrow> world" where
  "set_led_brightness cfg e led brightness w =
     (let r = pwm_set_dt e led (PWM_PERIOD_US cfg) (brightness_pulse cfg brightness) w in
      if fst r < 0 then printk (BrightnessError (fst r)) (snd r) else snd r)"

text \<open>Lines 109 to 114: the return code of \<open>pwm_set_dt\<close> is dropped.\<close>

function turn_off_loop :: "config \<Rightarrow> env \<Rightarrow> nat \<Rightarrow> world \<Rightarrow> world" where
  "turn_off_loop cfg e i w =
     (if i < NUM_LEDS then
        turn_off_loop cfg e (Suc i) (snd (pwm_set_dt e i (PWM_PERIOD_US cfg) 0 w))
      else w)"
  by pat_completeness auto
termination
  by (relation "measure (\<lambda>(cfg, e, i, w). NUM_LEDS - i)") auto

definition turn_off_all_leds :: "config \<Rightarrow> env \<Rightarrow> world \<Rightarrow> world" where
  "turn_off_all_leds cfg e w = turn_off_loop cfg e 0 w"

subsection \<open>main\<close>

text \<open>Lines 123 to 129: the readiness loop. The flag is \<open>False\<close> when the loop left
  \<open>main\<close> through \<open>return -1\<close>.\<close>

function ready_loop :: "env \<Rightarrow> nat \<Rightarrow> world \<Rightarrow> bool \<times> world" where
  "ready_loop e i w =
     (if i < NUM_LEDS then
        (let w1 = emit (ReadyCheck i) w in
         if \<not> device_is_ready e i then (False, printk (NotReady i) w1)
         else ready_loop e (Suc i) (printk (Ready i) w1))
      else (True, w))"
  by pat_completeness auto
termination
  by (relation "measure (\<lambda>(e, i, w). NUM_LEDS - i)") auto

text \<open>Lines 137 to 152: one pass through the body of \<open>while (1)\<close>, on the pair of
  \<open>current_led\<close> and the world.\<close>

definition cycle :: "config \<Rightarrow> env \<Rightarrow> nat \<times> world \<Rightarrow> nat \<times> world" where
  "cycle cfg e s =
     (let current_led = fst s;
          w1 = printk (Fading current_led) (snd s);
          w2 = fade_led cfg e current_led True w1;
          w3 = k_msleep 200 w2;
          w4 = fade_led cfg e current_led False w3;
          next_led = (current_led + 1) mod NUM_LEDS;
          w5 = k_msleep 100 w4
      in (next_led, w5))"

text \<open>
  \<open>while (1)\<close> has no \<open>break\<close> and its body no \<open>return\<close>: once entered, the loop
  never ends and \<open>return 0\<close> is not reached. \<open>main_loop n\<close> is the state after the
  first \<open>n\<close> passes.
\<close>

fun main_loop :: "config \<Rightarrow> env \<Rightarrow> nat \<Rightarrow> nat \<times> world \<Rightarrow> nat \<times> world" where
  "main_loop cfg e 0 s = s"
| "main_loop cfg e (Suc n) s = main_loop cfg e n (cycle cfg e s)"

text \<open>
  \<open>main\<close>, observed after \<open>n\<close> passes of the loop. The first component is
  \<open>Some r\<close> when \<open>main\<close> has returned \<open>r\<close>, and \<open>None\<close> when it is still inside
  \<open>while (1)\<close>; the second is the world at that point.
\<close>

definition main :: "config \<Rightarrow> env \<Rightarrow> nat \<Rightarrow> int option \<times> world" where
  "main cfg e n =
     (let w0 = printk Banner boot;
          r = ready_loop e 0 w0
      in if \<not> fst r then (Some (- 1), snd r)
         else (None, snd (main_loop cfg e n (0, turn_off_all_leds cfg e (snd r)))))"

subsection \<open>Observations on a run\<close>

text \<open>The calls one pass of the loop in \<open>fade_led\<close> makes when the write succeeds, and
  the calls one pass of the readiness loop makes when the device is ready.\<close>

abbreviation step_events :: "config \<Rightarrow> nat \<Rightarrow> bool \<Rightarrow> int \<Rightarrow> event list" where
  "step_events cfg led fade_in step \<equiv>
     [PwmSet led (PWM_PERIOD_US cfg) (pulse_width cfg fade_in step), Sleep (FADE_STEP_MS cfg)]"

abbreviation ready_events :: "nat \<Rightarrow> event list" where
  "ready_events i \<equiv> [ReadyCheck i, Print (Ready i)]"

text \<open>What follows the last pass of the loop in \<open>fade_led\<close> when no write fails:
  nothing, unless \<open>FADE_STEPS\<close> is \<open>INT_MAX\<close>.\<close>

definition overflow_events :: "config \<Rightarrow> event list" where
  "overflow_events cfg = (if sint (FADE_STEPS cfg) = INT_MAX then [SignedOverflow] else [])"

text \<open>The duty-cycle writes in a trace, in order: LED, period and pulse width of each
  call of \<open>pwm_set_dt\<close>; and the writes made between a world and a later one.\<close>

fun pwm_writes :: "event list \<Rightarrow> (nat \<times> u32 \<times> u32) list" where
  "pwm_writes [] = []"
| "pwm_writes (PwmSet led period pulse # es) = (led, period, pulse) # pwm_writes es"
| "pwm_writes (_ # es) = pwm_writes es"

definition new_writes :: "world \<Rightarrow> world \<Rightarrow> (nat \<times> u32 \<times> u32) list" where
  "new_writes w w' = drop (length (pwm_writes (trace w))) (pwm_writes (trace w'))"

text \<open>The world in which \<open>main\<close> enters \<open>while (1)\<close> when every device is ready: the
  banner, the four readiness checks and the four zeroing writes have happened.\<close>

definition started :: "config \<Rightarrow> world" where
  "started cfg = \<lparr>pwm_calls = NUM_LEDS,
     trace = Print Banner # concat (map ready_events [0..<NUM_LEDS]) @
             map (\<lambda>i. PwmSet i (PWM_PERIOD_US cfg) 0) [0..<NUM_LEDS]\<rparr>"

text \<open>
  Platforms to run the program on: one where every device is ready and every write
  succeeds; one where write number \<open>k\<close> of the run fails with \<open>-EIO\<close> (\<open>-5\<close>); one
  where every write fails; and one where the device of LED \<open>k\<close> is not ready.
\<close>

definition healthy :: env where
  "healthy = \<lparr>device_is_ready = (\<lambda>_. True), pwm_ret = (\<lambda>_. 0)\<rparr>"

definition failing_at :: "nat \<Rightarrow> env" where
  "failing_at k = \<lparr>device_is_ready = (\<lambda>_. True), pwm_ret = (\<lambda>n. if n = k then - 5 else 0)\<rparr>"

definition all_writes_fail :: env where
  "all_writes_fail = \<lparr>device_is_ready = (\<lambda>_. True), pwm_ret = (\<lambda>_. - 5)\<rparr>"

definition not_ready_at :: "nat \<Rightarrow> env" where
  "not_ready_at k = \<lparr>device_is_ready = (\<lambda>i. i \<noteq> k), pwm_ret = (\<lambda>_. 0)\<rparr>"

text \<open>A configuration whose period times step count does not fit into 32 bits:
  \<open>#define PWM_PERIOD_US 0x80000000U\<close> and \<open>#define FADE_STEPS 2\<close>.\<close>

definition wrapping :: config where
  "wrapping = \<lparr>PWM_PERIOD_US = 0x80000000, FADE_STEP_MS = 10, FADE_STEPS = 2\<rparr>"

text \<open>The shipped configuration with \<open>#define FADE_STEPS 2147483647\<close>.\<close>

definition at_int_max :: config where
  "at_int_max = \<lparr>PWM_PERIOD_US = 1000, FADE_STEP_MS = 10, FADE_STEPS = 0x7FFFFFFF\<rparr>"

section \<open>Arithmetic of the pulse width\<close>

text \<open>Conversions between \<open>int\<close>, \<open>unsigned int\<close> and the natural numbers.\<close>

lemma unat_word_of_int_small:
  assumes "0 \<le> i" "i < 2 ^ 32"
  shows "unat (word_of_int i :: 32 word) = nat i"
proof -
  have "take_bit 32 i = i" using assms by (simp add: take_bit_int_eq_self)
  then show ?thesis by (simp add: unsigned_of_int)
qed

lemma sint_lt32: "sint (x :: 32 word) < 2 ^ 31"
  using sint_lt [of x] by simp

lemma nat_sint_nonneg:
  assumes "0 \<le> sint (x :: 32 word)"
  shows "unat x = nat (sint x)"
proof -
  have "sint x < 2 ^ 32" using sint_lt32 [of x] by simp
  then have "take_bit 32 (sint x) = sint x"
    using assms by (simp add: take_bit_int_eq_self)
  then have "uint x = sint x" using uint_sint [of x] by simp
  then show ?thesis by (simp add: unat_eq_nat_uint)
qed

text \<open>The pulse width of a step as a natural number: the product wraps at \<open>2 ^ 32\<close>
  before it is divided.\<close>

lemma unat_pw_in: 
  assumes "1 \<le> sint (FADE_STEPS cfg)" "0 \<le> step" "step \<le> sint (FADE_STEPS cfg)"
  shows "unat (pulse_width cfg True step) = ((unat (PWM_PERIOD_US cfg) * nat step) mod 2 ^ 32) div nat (sint (FADE_STEPS cfg))"
proof -
  have "step < 2 ^ 32" using assms(3) sint_lt32 [of "FADE_STEPS cfg"] by simp
  then have s: "unat (word_of_int step :: 32 word) = nat step"
    using assms(2) by (rule unat_word_of_int_small [rotated])
  have n: "unat (FADE_STEPS cfg) = nat (sint (FADE_STEPS cfg))"
    using assms(1) by (simp add: nat_sint_nonneg)
  show ?thesis
    by (simp add: pulse_width_def unat_div unat_word_ariths s n)
qed

lemma unat_pw_out: 
  assumes "1 \<le> sint (FADE_STEPS cfg)" "0 \<le> step" "step \<le> sint (FADE_STEPS cfg)"
  shows "unat (pulse_width cfg False step) = ((unat (PWM_PERIOD_US cfg) * (nat (sint (FADE_STEPS cfg)) - nat step)) mod 2 ^ 32) div nat (sint (FADE_STEPS cfg))"
proof -
  define d where "d = sint (FADE_STEPS cfg) - step"
  have "d < 2 ^ 32" using assms(2) sint_lt32 [of "FADE_STEPS cfg"] by (simp add: d_def)
  moreover have "0 \<le> d" using assms(3) by (simp add: d_def)
  ultimately have s: "unat (word_of_int d :: 32 word) = nat d"
    by (rule unat_word_of_int_small [rotated])
  have n: "unat (FADE_STEPS cfg) = nat (sint (FADE_STEPS cfg))"
    using assms(1) by (simp add: nat_sint_nonneg)
  have d: "nat d = nat (sint (FADE_STEPS cfg)) - nat step"
    using assms(2) by (simp add: d_def nat_diff_distrib')
  have "pulse_width cfg False step = (PWM_PERIOD_US cfg * word_of_int d) div FADE_STEPS cfg"
    by (simp only: pulse_width_def d_def if_False)
  then show ?thesis
    by (simp only: unat_div unat_word_ariths s n d) simp
qed

text \<open>Three facts about a wrapped product divided by the step count.\<close>

lemma wrapped_quotient_le: "0 < n \<Longrightarrow> s \<le> n \<Longrightarrow> ((p * s) mod m) div n \<le> (p :: nat)"
proof -
  assume n: "0 < n" and s: "s \<le> n"
  have "(p * s) mod m \<le> p * s" by simp
  also have "\<dots> \<le> p * n" using s by simp
  finally have "((p * s) mod m) div n \<le> (p * n) div n" by (rule div_le_mono)
  then show ?thesis using n by simp
qed

lemma exact_quotient_iff:
  assumes "0 < n" "0 < (m::nat)"
  shows "((p * n) mod m) div n = p \<longleftrightarrow> p * n < m"
proof
  assume "p * n < m"
  then show "((p * n) mod m) div n = p" using assms by simp
next
  assume eq: "((p * n) mod m) div n = p"
  show "p * n < m"
  proof (rule ccontr)
    assume "\<not> p * n < m"
    then have "m \<le> p * n" by simp
    have "(p * n) mod m < m" using assms(2) by simp
    then have "(p * n) mod m < p * n" using \<open>m \<le> p * n\<close> by (rule less_le_trans)
    then have "((p * n) mod m) div n < p" using assms(1)
      by (simp add: less_mult_imp_div_less)
    then show False using eq by simp
  qed
qed

lemma in_monotone:
  assumes "0 < (n::nat)" "p * n < m" "s \<le> t" "t \<le> n"
  shows "((p * s) mod m) div n \<le> ((p * t) mod m) div n"
proof -
  have "p * t \<le> p * n" using assms(4) by simp
  then have t: "p * t < m" using assms(2) by (rule le_less_trans)
  have st: "p * s \<le> p * t" using assms(3) by simp
  then have s: "p * s < m" using t by (rule le_less_trans)
  have "(p * s) mod m = p * s" "(p * t) mod m = p * t" using s t by simp_all
  then show ?thesis using div_le_mono [OF st, of n] by simp
qed

text \<open>Bounds, end points and monotonicity of \<open>pulse_width\<close>.\<close>

lemma pulse_width_le:
  assumes "1 \<le> sint (FADE_STEPS cfg)" "0 \<le> step" "step \<le> sint (FADE_STEPS cfg)"
  shows "pulse_width cfg fade_in step \<le> PWM_PERIOD_US cfg"
proof (cases fade_in)
  case True
  have "nat step \<le> nat (sint (FADE_STEPS cfg))" using assms by simp
  then show ?thesis using assms True
    by (simp add: word_le_nat_alt unat_pw_in wrapped_quotient_le)
next
  case False
  then show ?thesis using assms
    by (simp add: word_le_nat_alt unat_pw_out wrapped_quotient_le)
qed

lemma pulse_width_in_0: "pulse_width cfg True 0 = 0"
  by (simp add: pulse_width_def)

lemma pulse_width_out_last: "pulse_width cfg False (sint (FADE_STEPS cfg)) = 0"
  by (simp add: pulse_width_def)

lemma pulse_width_period_iff:
  assumes "1 \<le> sint (FADE_STEPS cfg)"
  shows "pulse_width cfg True (sint (FADE_STEPS cfg)) = PWM_PERIOD_US cfg \<longleftrightarrow>
           unat (PWM_PERIOD_US cfg) * nat (sint (FADE_STEPS cfg)) < 2 ^ 32"
    and "pulse_width cfg False 0 = PWM_PERIOD_US cfg \<longleftrightarrow>
           unat (PWM_PERIOD_US cfg) * nat (sint (FADE_STEPS cfg)) < 2 ^ 32"
proof -
  have n: "0 < nat (sint (FADE_STEPS cfg))" using assms by simp
  have "unat (pulse_width cfg True (sint (FADE_STEPS cfg))) = unat (PWM_PERIOD_US cfg) \<longleftrightarrow>
           unat (PWM_PERIOD_US cfg) * nat (sint (FADE_STEPS cfg)) < 2 ^ 32"
    using assms by (simp add: unat_pw_in exact_quotient_iff [OF n])
  then show "pulse_width cfg True (sint (FADE_STEPS cfg)) = PWM_PERIOD_US cfg \<longleftrightarrow>
           unat (PWM_PERIOD_US cfg) * nat (sint (FADE_STEPS cfg)) < 2 ^ 32"
    by (simp add: word_unat_eq_iff)
  have "unat (pulse_width cfg False 0) = unat (PWM_PERIOD_US cfg) \<longleftrightarrow>
           unat (PWM_PERIOD_US cfg) * nat (sint (FADE_STEPS cfg)) < 2 ^ 32"
    using assms by (simp add: unat_pw_out exact_quotient_iff [OF n])
  then show "pulse_width cfg False 0 = PWM_PERIOD_US cfg \<longleftrightarrow>
           unat (PWM_PERIOD_US cfg) * nat (sint (FADE_STEPS cfg)) < 2 ^ 32"
    by (simp add: word_unat_eq_iff)
qed

lemma pulse_width_mono:
  assumes "1 \<le> sint (FADE_STEPS cfg)"
    and "unat (PWM_PERIOD_US cfg) * nat (sint (FADE_STEPS cfg)) < 2 ^ 32"
    and "0 \<le> s" "s \<le> t" "t \<le> sint (FADE_STEPS cfg)"
  shows "pulse_width cfg True s \<le> pulse_width cfg True t"
    and "pulse_width cfg False t \<le> pulse_width cfg False s"
proof -
  have n: "0 < nat (sint (FADE_STEPS cfg))" using assms(1) by simp
  have st: "nat s \<le> nat t" "nat t \<le> nat (sint (FADE_STEPS cfg))" using assms(3-5) by simp_all
  have "unat (pulse_width cfg True s) \<le> unat (pulse_width cfg True t)"
    using in_monotone [OF n assms(2) st] assms(1,3-5)
    by (simp only: unat_pw_in [where cfg = cfg])
  then show "pulse_width cfg True s \<le> pulse_width cfg True t"
    by (simp add: word_le_nat_alt)
  have ts: "nat (sint (FADE_STEPS cfg)) - nat t \<le> nat (sint (FADE_STEPS cfg)) - nat s"
    using st by arith
  have ts2: "nat (sint (FADE_STEPS cfg)) - nat s \<le> nat (sint (FADE_STEPS cfg))"
    by simp
  have "unat (pulse_width cfg False t) \<le> unat (pulse_width cfg False s)"
    using in_monotone [OF n assms(2) ts ts2] assms(1,3-5)
    by (simp only: unat_pw_out [where cfg = cfg])
  then show "pulse_width cfg False t \<le> pulse_width cfg False s"
    by (simp add: word_le_nat_alt)
qed

lemma sorted_map_upto:
  assumes "\<And>s t. i \<le> s \<Longrightarrow> s \<le> t \<Longrightarrow> t \<le> j \<Longrightarrow> f s \<le> (f t :: 'a :: linorder)"
  shows "sorted (map f [i..j])"
proof -
  have "sorted_wrt (\<lambda>s t. f s \<le> f t) [i..j]"
  proof (rule sorted_wrt_mono_rel [of "[i..j]" "(\<le>)"])
    fix s t assume "s \<in> set [i..j]" "t \<in> set [i..j]" "s \<le> t"
    then show "f s \<le> f t" using assms by simp
  next
    show "sorted [i..j]" by simp
  qed
  then show ?thesis by (simp add: sorted_map)
qed

text \<open>The pulse width \<open>set_led_brightness\<close> computes under the shipped configuration.\<close>

lemma unat_u8_lt: "unat (b :: 8 word) < 256"
  using unsigned_less [of b, where ?'a = nat] by simp

lemma unat_ucast_u8: "unat (ucast (b :: 8 word) :: 32 word) = unat b"
proof -
  have "unat b < 2 ^ 32" using unat_u8_lt [of b] by simp
  then have "take_bit 32 (unat b) = unat b" by (simp add: take_bit_nat_eq_self)
  then show ?thesis by (simp add: unsigned_ucast_eq)
qed

lemma unat_brightness_pulse:
  "unat (brightness_pulse shipped b) = (1000 * unat b) div 100"
proof -
  have "1000 * unat b < 2 ^ 32" using unat_u8_lt [of b] by simp
  then have "(1000 * unat b) mod 2 ^ 32 = 1000 * unat b" by simp
  then show ?thesis
    by (simp add: brightness_pulse_def shipped_def unat_div unat_word_ariths unat_ucast_u8)
qed

section \<open>The loop of fade_led\<close>

declare fade_loop.simps [simp del]
declare turn_off_loop.simps [simp del]
declare ready_loop.simps [simp del]

lemmas run_simps = fade_led_def fade_loop.simps pulse_width_def pwm_set_dt_def k_msleep_def
  printk_def emit_def boot_def new_writes_def INT_MAX_def Let_def

lemma fst_pwm_set_dt [simp]: "fst (pwm_set_dt e led p pw w) = pwm_ret e (pwm_calls w)"
  by (simp add: pwm_set_dt_def)

lemma snd_pwm_set_dt [simp]:
  "snd (pwm_set_dt e led p pw w) = w\<lparr>pwm_calls := Suc (pwm_calls w), trace := trace w @ [PwmSet led p pw]\<rparr>"
  by (simp add: pwm_set_dt_def emit_def)

lemma trace_k_msleep: "trace (k_msleep ms w) = trace w @ [Sleep ms]"
  by (simp add: k_msleep_def emit_def)

lemma trace_printk: "trace (printk m w) = trace w @ [Print m]"
  by (simp add: printk_def emit_def)

lemma fade_loop_done: "sint (FADE_STEPS cfg) < step \<Longrightarrow> fade_loop cfg e led fade_in step w = w"
  by (simp add: fade_loop.simps)

lemma fade_loop_fail_now:
  "step \<le> sint (FADE_STEPS cfg) \<Longrightarrow> pwm_ret e (pwm_calls w) < 0 \<Longrightarrow>
   fade_loop cfg e led fade_in step w =
     w\<lparr>pwm_calls := Suc (pwm_calls w),
       trace := trace w @ [PwmSet led (PWM_PERIOD_US cfg) (pulse_width cfg fade_in step),
                           Print (PwmError (pwm_ret e (pwm_calls w)))]\<rparr>"
  by (simp add: fade_loop.simps [of cfg e led fade_in step w] printk_def emit_def)

lemma sint_le_INT_MAX: "sint (x :: 32 word) \<le> INT_MAX"
  using sint_lt32 [of x] by (simp add: INT_MAX_def)

lemma fade_loop_ok_now:
  "step \<le> sint (FADE_STEPS cfg) \<Longrightarrow> 0 \<le> pwm_ret e (pwm_calls w) \<Longrightarrow> step \<noteq> INT_MAX \<Longrightarrow>
   fade_loop cfg e led fade_in step w =
     fade_loop cfg e led fade_in (step + 1)
       (w\<lparr>pwm_calls := Suc (pwm_calls w),
          trace := trace w @ [PwmSet led (PWM_PERIOD_US cfg) (pulse_width cfg fade_in step),
                              Sleep (FADE_STEP_MS cfg)]\<rparr>)"
  by (simp add: fade_loop.simps [of cfg e led fade_in step w] k_msleep_def emit_def)

lemma fade_loop_overflow_now:
  "step \<le> sint (FADE_STEPS cfg) \<Longrightarrow> 0 \<le> pwm_ret e (pwm_calls w) \<Longrightarrow> step = INT_MAX \<Longrightarrow>
   fade_loop cfg e led fade_in step w =
     w\<lparr>pwm_calls := Suc (pwm_calls w),
       trace := trace w @ [PwmSet led (PWM_PERIOD_US cfg) (pulse_width cfg fade_in step),
                           Sleep (FADE_STEP_MS cfg), SignedOverflow]\<rparr>"
  by (subst fade_loop.simps) (simp add: k_msleep_def emit_def)

text \<open>A run of the loop in which every write succeeds (it ends in \<open>SignedOverflow\<close>
  when \<open>FADE_STEPS\<close> is \<open>INT_MAX\<close>), and a run whose write at step \<open>k\<close> is the first
  to fail.\<close>

lemma fade_loop_success:
  "step \<le> sint (FADE_STEPS cfg) \<Longrightarrow>
   (\<forall>i < nat (sint (FADE_STEPS cfg) + 1 - step). 0 \<le> pwm_ret e (pwm_calls w + i)) \<Longrightarrow>
   fade_loop cfg e led fade_in step w =
     w\<lparr>pwm_calls := pwm_calls w + nat (sint (FADE_STEPS cfg) + 1 - step),
       trace := trace w @ concat (map (step_events cfg led fade_in) [step..sint (FADE_STEPS cfg)]) @
                overflow_events cfg\<rparr>"
proof (induction cfg e led fade_in step w rule: fade_loop.induct)
  case (1 cfg e led fade_in step w)
  note le = "1.prems"(1)
  let ?w' = "w\<lparr>pwm_calls := Suc (pwm_calls w),
               trace := trace w @ [PwmSet led (PWM_PERIOD_US cfg) (pulse_width cfg fade_in step),
                                   Sleep (FADE_STEP_MS cfg)]\<rparr>"
  have ok: "0 \<le> pwm_ret e (pwm_calls w)"
    using "1.prems"(2) le by (auto dest: spec [of _ 0])
  show ?case
  proof (cases "step = sint (FADE_STEPS cfg)")
    case last: True
    have up: "[step..sint (FADE_STEPS cfg)] = [step]" using last by simp
    have cnt: "nat (sint (FADE_STEPS cfg) + 1 - step) = Suc 0" using last by simp
    show ?thesis
    proof (cases "step = INT_MAX")
      case True
      then have "overflow_events cfg = [SignedOverflow]"
        using last by (simp add: overflow_events_def)
      then show ?thesis
        by (simp add: fade_loop_overflow_now [OF le ok True] up cnt)
    next
      case False
      then have "overflow_events cfg = []"
        using last by (simp add: overflow_events_def)
      moreover have "fade_loop cfg e led fade_in (step + 1) ?w' = ?w'"
        using last by (intro fade_loop_done) simp
      ultimately show ?thesis
        by (simp add: fade_loop_ok_now [OF le ok False] up cnt)
    qed
  next
    case False
    then have lt: "step < sint (FADE_STEPS cfg)" using le by simp
    have ne: "step \<noteq> INT_MAX" using lt sint_le_INT_MAX [of "FADE_STEPS cfg"] by simp
    have rest: "\<forall>i < nat (sint (FADE_STEPS cfg) + 1 - (step + 1)). 0 \<le> pwm_ret e (pwm_calls ?w' + i)"
    proof (intro allI impI)
      fix i assume "i < nat (sint (FADE_STEPS cfg) + 1 - (step + 1))"
      then have "Suc i < nat (sint (FADE_STEPS cfg) + 1 - step)" by simp
      then have "0 \<le> pwm_ret e (pwm_calls w + Suc i)" using "1.prems"(2) by blast
      then show "0 \<le> pwm_ret e (pwm_calls ?w' + i)" by simp
    qed
    have ih: "fade_loop cfg e led fade_in (step + 1) ?w' =
      ?w'\<lparr>pwm_calls := pwm_calls ?w' + nat (sint (FADE_STEPS cfg) + 1 - (step + 1)),
          trace := trace ?w' @ concat (map (step_events cfg led fade_in) [step + 1..sint (FADE_STEPS cfg)]) @
                   overflow_events cfg\<rparr>"
      using "1.IH" [OF le refl] ok rest lt ne
      by (simp add: k_msleep_def emit_def)
    have cnt: "Suc (nat (sint (FADE_STEPS cfg) - step)) = nat (sint (FADE_STEPS cfg) + 1 - step)"
      using le by simp
    show ?thesis
      using le by (simp add: fade_loop_ok_now [OF le ok ne] ih upto_rec1 [of step] cnt [symmetric])
  qed
qed

lemma fade_loop_failure:
  "step \<le> k \<Longrightarrow> k \<le> sint (FADE_STEPS cfg) \<Longrightarrow>
   (\<forall>i < nat (k - step). 0 \<le> pwm_ret e (pwm_calls w + i)) \<Longrightarrow>
   pwm_ret e (pwm_calls w + nat (k - step)) < 0 \<Longrightarrow>
   fade_loop cfg e led fade_in step w =
     w\<lparr>pwm_calls := pwm_calls w + nat (k - step) + 1,
       trace := trace w @ concat (map (step_events cfg led fade_in) [step..k - 1]) @
                [PwmSet led (PWM_PERIOD_US cfg) (pulse_width cfg fade_in k),
                 Print (PwmError (pwm_ret e (pwm_calls w + nat (k - step))))]\<rparr>"
proof (induction cfg e led fade_in step w rule: fade_loop.induct)
  case (1 cfg e led fade_in step w)
  have le: "step \<le> sint (FADE_STEPS cfg)" using "1.prems"(1,2) by simp
  show ?case
  proof (cases "step = k")
    case True
    then show ?thesis using "1.prems"(4) le by (simp add: fade_loop_fail_now)
  next
    case False
    then have lt: "step < k" using "1.prems"(1) by simp
    let ?w' = "w\<lparr>pwm_calls := Suc (pwm_calls w),
                 trace := trace w @ [PwmSet led (PWM_PERIOD_US cfg) (pulse_width cfg fade_in step),
                                     Sleep (FADE_STEP_MS cfg)]\<rparr>"
    have ok: "0 \<le> pwm_ret e (pwm_calls w)"
      using "1.prems"(3) lt by (auto dest: spec [of _ 0])
    have ne: "step \<noteq> INT_MAX"
      using lt "1.prems"(2) sint_le_INT_MAX [of "FADE_STEPS cfg"] by simp
    have cnt: "nat (k - step) = Suc (nat (k - (step + 1)))" using lt by simp
    have rest: "\<forall>i < nat (k - (step + 1)). 0 \<le> pwm_ret e (pwm_calls ?w' + i)"
    proof (intro allI impI)
      fix i assume "i < nat (k - (step + 1))"
      then have "Suc i < nat (k - step)" by simp
      then have "0 \<le> pwm_ret e (pwm_calls w + Suc i)" using "1.prems"(3) by blast
      then show "0 \<le> pwm_ret e (pwm_calls ?w' + i)" by simp
    qed
    have bad: "pwm_ret e (pwm_calls ?w' + nat (k - (step + 1))) < 0"
      using "1.prems"(4) by (simp add: cnt)
    have ih: "fade_loop cfg e led fade_in (step + 1) ?w' =
      ?w'\<lparr>pwm_calls := pwm_calls ?w' + nat (k - (step + 1)) + 1,
          trace := trace ?w' @ concat (map (step_events cfg led fade_in) [step + 1..k - 1]) @
                [PwmSet led (PWM_PERIOD_US cfg) (pulse_width cfg fade_in k),
                 Print (PwmError (pwm_ret e (pwm_calls ?w' + nat (k - (step + 1)))))]\<rparr>"
      using "1.IH" [OF le refl] ok rest bad lt ne "1.prems"(2)
      by (simp add: k_msleep_def emit_def)
    have up: "[step..k - 1] = step # [step + 1..k - 1]"
      using lt by (simp add: upto_rec1)
    show ?thesis
      by (simp add: fade_loop_ok_now [OF le ok ne] ih up cnt)
  qed
qed

lemma fade_loop_extends: "\<exists>rest. trace (fade_loop cfg e led fade_in step w) = trace w @ rest"
proof (induction cfg e led fade_in step w rule: fade_loop.induct)
  case (1 cfg e led fade_in step w)
  show ?case
  proof (cases "step \<le> sint (FADE_STEPS cfg)")
    case False
    then show ?thesis by (simp add: fade_loop_done)
  next
    case True
    show ?thesis
    proof (cases "pwm_ret e (pwm_calls w) < 0")
      case bad: True
      show ?thesis by (simp add: fade_loop_fail_now [OF True bad])
    next
      case False
      then have ok: "0 \<le> pwm_ret e (pwm_calls w)" by simp
      show ?thesis
      proof (cases "step = INT_MAX")
        case over: True
        show ?thesis by (simp add: fade_loop_overflow_now [OF True ok over])
      next
        case ne: False
        obtain rest where "trace (fade_loop cfg e led fade_in (step + 1)
            (k_msleep (FADE_STEP_MS cfg)
              (snd (pwm_set_dt e led (PWM_PERIOD_US cfg) (pulse_width cfg fade_in step) w)))) =
          trace (k_msleep (FADE_STEP_MS cfg)
              (snd (pwm_set_dt e led (PWM_PERIOD_US cfg) (pulse_width cfg fade_in step) w))) @ rest"
          using "1.IH" [OF True refl] False ne by auto
        then show ?thesis
          by (simp add: fade_loop.simps [of cfg e led fade_in step w] True False ne
              k_msleep_def emit_def)
      qed
    qed
  qed
qed

lemma fade_led_success:
  assumes "0 \<le> sint (FADE_STEPS cfg)"
    and "\<forall>i \<le> nat (sint (FADE_STEPS cfg)). 0 \<le> pwm_ret e (pwm_calls w + i)"
  shows "fade_led cfg e led fade_in w =
     w\<lparr>pwm_calls := pwm_calls w + (nat (sint (FADE_STEPS cfg)) + 1),
       trace := trace w @ concat (map (step_events cfg led fade_in) [0..sint (FADE_STEPS cfg)]) @
                overflow_events cfg\<rparr>"
proof -
  have n: "nat (sint (FADE_STEPS cfg) + 1 - 0) = nat (sint (FADE_STEPS cfg)) + 1"
    using assms(1) by simp
  have "\<forall>i < nat (sint (FADE_STEPS cfg) + 1 - 0). 0 \<le> pwm_ret e (pwm_calls w + i)"
    using assms(2) by (simp add: n)
  then show ?thesis
    unfolding fade_led_def using assms(1) n
    by (subst fade_loop_success) simp_all
qed

lemma fade_led_failure:
  assumes "0 \<le> k" "k \<le> sint (FADE_STEPS cfg)"
    and "\<forall>i < nat k. 0 \<le> pwm_ret e (pwm_calls w + i)"
    and "pwm_ret e (pwm_calls w + nat k) < 0"
  shows "fade_led cfg e led fade_in w =
     w\<lparr>pwm_calls := pwm_calls w + nat k + 1,
       trace := trace w @ concat (map (step_events cfg led fade_in) [0..k - 1]) @
                [PwmSet led (PWM_PERIOD_US cfg) (pulse_width cfg fade_in k),
                 Print (PwmError (pwm_ret e (pwm_calls w + nat k)))]\<rparr>"
  unfolding fade_led_def
  using fade_loop_failure [of 0 k cfg e w led fade_in] assms by simp

lemma fade_led_extends: "\<exists>rest. trace (fade_led cfg e led fade_in w) = trace w @ rest"
  unfolding fade_led_def by (rule fade_loop_extends)

lemma fade_led_first_write:
  assumes "0 \<le> sint (FADE_STEPS cfg)"
  shows "\<exists>rest. trace (fade_led cfg e led fade_in w) =
           trace w @ PwmSet led (PWM_PERIOD_US cfg) (pulse_width cfg fade_in 0) # rest"
proof (cases "pwm_ret e (pwm_calls w) < 0")
  case True
  show ?thesis unfolding fade_led_def by (simp add: fade_loop_fail_now [OF assms True])
next
  case False
  then have ok: "0 \<le> pwm_ret e (pwm_calls w)" by simp
  let ?w' = "w\<lparr>pwm_calls := Suc (pwm_calls w),
          trace := trace w @ [PwmSet led (PWM_PERIOD_US cfg) (pulse_width cfg fade_in 0),
                              Sleep (FADE_STEP_MS cfg)]\<rparr>"
  obtain rest where "trace (fade_loop cfg e led fade_in (0 + 1) ?w') = trace ?w' @ rest"
    using fade_loop_extends by blast
  moreover have "(0::int) \<noteq> INT_MAX" by (simp add: INT_MAX_def)
  ultimately show ?thesis unfolding fade_led_def by (simp add: fade_loop_ok_now [OF assms ok])
qed

lemma first_failure:
  assumes "\<not> (\<forall>i \<le> n. 0 \<le> pwm_ret e (c + i))"
  obtains j where "j \<le> n" "pwm_ret e (c + j) < 0" "\<forall>i < j. 0 \<le> pwm_ret e (c + i)"
proof -
  from assms obtain i where i: "i \<le> n \<and> pwm_ret e (c + i) < 0" by (auto simp: not_le)
  define j where "j = (LEAST i. i \<le> n \<and> pwm_ret e (c + i) < 0)"
  have 1: "j \<le> n \<and> pwm_ret e (c + j) < 0" unfolding j_def using i by (rule LeastI)
  have 2: "\<forall>i < j. 0 \<le> pwm_ret e (c + i)"
  proof (intro allI impI)
    fix i' assume lt: "i' < j"
    then have "\<not> (i' \<le> n \<and> pwm_ret e (c + i') < 0)" unfolding j_def by (rule not_less_Least)
    moreover have "i' \<le> n" using lt 1 by simp
    ultimately show "0 \<le> pwm_ret e (c + i')" by simp
  qed
  show thesis using that 1 2 by blast
qed

text \<open>The writes of one call of \<open>fade_led\<close>: the pulse widths of the steps \<open>0\<close> to
  \<open>k\<close>, where \<open>k\<close> is the last step when no write fails and the failing step
  otherwise.\<close>

lemma pwm_writes_append: "pwm_writes (xs @ ys) = pwm_writes xs @ pwm_writes ys"
  by (induction xs rule: pwm_writes.induct) simp_all

lemma pwm_writes_overflow: "pwm_writes (overflow_events cfg) = []"
  by (simp add: overflow_events_def)

lemma no_overflow_events: "sint (FADE_STEPS cfg) < INT_MAX \<Longrightarrow> overflow_events cfg = []"
  by (simp add: overflow_events_def)

lemma pwm_writes_steps:
  "pwm_writes (concat (map (step_events cfg led fade_in) ss)) =
     map (\<lambda>s. (led, PWM_PERIOD_US cfg, pulse_width cfg fade_in s)) ss"
  by (induction ss) simp_all

lemma fade_led_writes:
  assumes "0 \<le> sint (FADE_STEPS cfg)"
  obtains k where "0 \<le> k" "k \<le> sint (FADE_STEPS cfg)"
    "pwm_writes (trace (fade_led cfg e led fade_in w)) =
       pwm_writes (trace w) @ map (\<lambda>s. (led, PWM_PERIOD_US cfg, pulse_width cfg fade_in s)) [0..k]"
    "(\<forall>i \<le> nat (sint (FADE_STEPS cfg)). 0 \<le> pwm_ret e (pwm_calls w + i)) \<longrightarrow> k = sint (FADE_STEPS cfg)"
proof (cases "\<forall>i \<le> nat (sint (FADE_STEPS cfg)). 0 \<le> pwm_ret e (pwm_calls w + i)")
  case True
  have "pwm_writes (trace (fade_led cfg e led fade_in w)) =
       pwm_writes (trace w) @ map (\<lambda>s. (led, PWM_PERIOD_US cfg, pulse_width cfg fade_in s)) [0..sint (FADE_STEPS cfg)]"
    by (simp add: fade_led_success [OF assms True] pwm_writes_append pwm_writes_steps
        pwm_writes_overflow)
  then show thesis using that [of "sint (FADE_STEPS cfg)"] assms by blast
next
  case False
  then obtain j where j: "j \<le> nat (sint (FADE_STEPS cfg))" "pwm_ret e (pwm_calls w + j) < 0"
    "\<forall>i < j. 0 \<le> pwm_ret e (pwm_calls w + i)"
    by (rule first_failure)
  have "fade_led cfg e led fade_in w =
     w\<lparr>pwm_calls := pwm_calls w + nat (int j) + 1,
       trace := trace w @ concat (map (step_events cfg led fade_in) [0..int j - 1]) @
                [PwmSet led (PWM_PERIOD_US cfg) (pulse_width cfg fade_in (int j)),
                 Print (PwmError (pwm_ret e (pwm_calls w + nat (int j))))]\<rparr>"
    using j assms by (intro fade_led_failure) (simp_all add: le_nat_iff)
  moreover have "[0..int j] = [0..int j - 1] @ [int j]"
    by (simp add: upto_rec2)
  ultimately have k3: "pwm_writes (trace (fade_led cfg e led fade_in w)) =
       pwm_writes (trace w) @ map (\<lambda>s. (led, PWM_PERIOD_US cfg, pulse_width cfg fade_in s)) [0..int j]"
    by (simp add: pwm_writes_append pwm_writes_steps)
  have k1: "0 \<le> int j" by simp
  have k2: "int j \<le> sint (FADE_STEPS cfg)" using j(1) assms by (simp add: le_nat_iff)
  have k4: "(\<forall>i \<le> nat (sint (FADE_STEPS cfg)). 0 \<le> pwm_ret e (pwm_calls w + i)) \<longrightarrow>
      int j = sint (FADE_STEPS cfg)"
    using False by blast
  show thesis by (rule that [OF k1 k2 k3 k4])
qed

lemma new_writes_fade_led:
  assumes "0 \<le> sint (FADE_STEPS cfg)"
  obtains k where "0 \<le> k" "k \<le> sint (FADE_STEPS cfg)"
    "new_writes w (fade_led cfg e led fade_in w) =
       map (\<lambda>s. (led, PWM_PERIOD_US cfg, pulse_width cfg fade_in s)) [0..k]"
    "(\<forall>i \<le> nat (sint (FADE_STEPS cfg)). 0 \<le> pwm_ret e (pwm_calls w + i)) \<longrightarrow> k = sint (FADE_STEPS cfg)"
proof -
  obtain k where k: "0 \<le> k" "k \<le> sint (FADE_STEPS cfg)"
    "pwm_writes (trace (fade_led cfg e led fade_in w)) =
       pwm_writes (trace w) @ map (\<lambda>s. (led, PWM_PERIOD_US cfg, pulse_width cfg fade_in s)) [0..k]"
    "(\<forall>i \<le> nat (sint (FADE_STEPS cfg)). 0 \<le> pwm_ret e (pwm_calls w + i)) \<longrightarrow> k = sint (FADE_STEPS cfg)"
    using assms by (rule fade_led_writes)
  have "new_writes w (fade_led cfg e led fade_in w) =
       map (\<lambda>s. (led, PWM_PERIOD_US cfg, pulse_width cfg fade_in s)) [0..k]"
    by (simp add: new_writes_def k(3))
  then show thesis using k(1,2,4) that by blast
qed

lemma last_write_of_full_fade:
  assumes "0 \<le> sint (FADE_STEPS cfg)"
    and "\<forall>i \<le> nat (sint (FADE_STEPS cfg)). 0 \<le> pwm_ret e (pwm_calls w + i)"
  shows "last (new_writes w (fade_led cfg e led fade_in w)) =
           (led, PWM_PERIOD_US cfg, pulse_width cfg fade_in (sint (FADE_STEPS cfg)))"
proof -
  obtain k where k: "0 \<le> k"
    "new_writes w (fade_led cfg e led fade_in w) =
       map (\<lambda>s. (led, PWM_PERIOD_US cfg, pulse_width cfg fade_in s)) [0..k]"
    "(\<forall>i \<le> nat (sint (FADE_STEPS cfg)). 0 \<le> pwm_ret e (pwm_calls w + i)) \<longrightarrow> k = sint (FADE_STEPS cfg)"
    using assms(1) by (rule new_writes_fade_led)
  have keq: "k = sint (FADE_STEPS cfg)" using k(3) assms(2) by blast
  have up: "[0..k] = [0..k - 1] @ [k]" using k(1) by (simp add: upto_rec2)
  have "last (new_writes w (fade_led cfg e led fade_in w)) =
          (led, PWM_PERIOD_US cfg, pulse_width cfg fade_in k)"
    unfolding k(2) by (subst up) simp
  then show ?thesis by (simp add: keq)
qed

section \<open>Startup and the main loop\<close>

lemma ready_loop_all_ready:
  "i \<le> NUM_LEDS \<Longrightarrow> (\<forall>j. i \<le> j \<and> j < NUM_LEDS \<longrightarrow> device_is_ready e j) \<Longrightarrow>
   ready_loop e i w = (True, w\<lparr>trace := trace w @ concat (map ready_events [i..<NUM_LEDS])\<rparr>)"
proof (induction e i w rule: ready_loop.induct)
  case (1 e i w)
  show ?case
  proof (cases "i < NUM_LEDS")
    case False
    then show ?thesis by (subst ready_loop.simps) simp
  next
    case True
    have r: "device_is_ready e i" using "1.prems"(2) True by simp
    let ?w' = "w\<lparr>trace := trace w @ ready_events i\<rparr>"
    have ih: "ready_loop e (Suc i) ?w' =
      (True, ?w'\<lparr>trace := trace ?w' @ concat (map ready_events [Suc i..<NUM_LEDS])\<rparr>)"
      using "1.IH" [OF True refl] r True "1.prems"(2) by (simp add: printk_def emit_def)
    show ?thesis
      using True r
      by (simp add: ready_loop.simps [of e i w] ih upt_rec [of i] printk_def emit_def)
  qed
qed

lemma ready_loop_not_ready:
  "i \<le> k \<Longrightarrow> k < NUM_LEDS \<Longrightarrow> (\<forall>j. i \<le> j \<and> j < k \<longrightarrow> device_is_ready e j) \<Longrightarrow>
   \<not> device_is_ready e k \<Longrightarrow>
   ready_loop e i w =
     (False, w\<lparr>trace := trace w @ concat (map ready_events [i..<k]) @
                          [ReadyCheck k, Print (NotReady k)]\<rparr>)"
proof (induction e i w rule: ready_loop.induct)
  case (1 e i w)
  have lt: "i < NUM_LEDS" using "1.prems"(1,2) by simp
  show ?case
  proof (cases "i = k")
    case True
    then show ?thesis
      using "1.prems"(4) lt by (subst ready_loop.simps) (simp add: printk_def emit_def)
  next
    case False
    then have ik: "i < k" using "1.prems"(1) by simp
    have r: "device_is_ready e i" using "1.prems"(3) ik by simp
    let ?w' = "w\<lparr>trace := trace w @ ready_events i\<rparr>"
    have ih: "ready_loop e (Suc i) ?w' =
      (False, ?w'\<lparr>trace := trace ?w' @ concat (map ready_events [Suc i..<k]) @
                                 [ReadyCheck k, Print (NotReady k)]\<rparr>)"
      using "1.IH" [OF lt refl] r ik "1.prems"(2,3,4) by (simp add: printk_def emit_def)
    show ?thesis
      using lt r ik
      by (simp add: ready_loop.simps [of e i w] ih upt_rec [of i] printk_def emit_def)
  qed
qed

lemma first_not_ready:
  assumes "\<exists>i < NUM_LEDS. \<not> device_is_ready e i"
  obtains k where "k < NUM_LEDS" "\<not> device_is_ready e k" "\<forall>i < k. device_is_ready e i"
proof -
  from assms obtain i where i: "i < NUM_LEDS \<and> \<not> device_is_ready e i" by blast
  define k where "k = (LEAST i. i < NUM_LEDS \<and> \<not> device_is_ready e i)"
  have 1: "k < NUM_LEDS \<and> \<not> device_is_ready e k" unfolding k_def using i by (rule LeastI)
  have 2: "\<forall>j < k. device_is_ready e j"
  proof (intro allI impI)
    fix j assume lt: "j < k"
    then have "\<not> (j < NUM_LEDS \<and> \<not> device_is_ready e j)" unfolding k_def by (rule not_less_Least)
    moreover have "j < NUM_LEDS" using lt 1 by simp
    ultimately show "device_is_ready e j" by simp
  qed
  show thesis using that 1 2 by blast
qed

lemma turn_off_loop_eq:
  "turn_off_loop cfg e i w =
     w\<lparr>pwm_calls := pwm_calls w + (NUM_LEDS - i),
       trace := trace w @ map (\<lambda>j. PwmSet j (PWM_PERIOD_US cfg) 0) [i..<NUM_LEDS]\<rparr>"
proof (induction cfg e i w rule: turn_off_loop.induct)
  case (1 cfg e i w)
  show ?case
  proof (cases "i < NUM_LEDS")
    case False
    then show ?thesis by (simp add: turn_off_loop.simps [of cfg e i w])
  next
    case True
    have s: "NUM_LEDS - i = Suc (NUM_LEDS - Suc i)" using True by simp
    let ?w' = "w\<lparr>pwm_calls := Suc (pwm_calls w),
                 trace := trace w @ [PwmSet i (PWM_PERIOD_US cfg) 0]\<rparr>"
    have ih: "turn_off_loop cfg e (Suc i) ?w' =
      ?w'\<lparr>pwm_calls := pwm_calls ?w' + (NUM_LEDS - Suc i),
          trace := trace ?w' @ map (\<lambda>j. PwmSet j (PWM_PERIOD_US cfg) 0) [Suc i..<NUM_LEDS]\<rparr>"
      using "1.IH" [OF True] by simp
    have "turn_off_loop cfg e i w = turn_off_loop cfg e (Suc i) ?w'"
      using True by (subst turn_off_loop.simps) simp
    then show ?thesis
      using True by (simp add: ih upt_rec [of i] s)
  qed
qed

lemma turn_off_all_leds_eq:
  "turn_off_all_leds cfg e w =
     w\<lparr>pwm_calls := pwm_calls w + NUM_LEDS,
       trace := trace w @ map (\<lambda>i. PwmSet i (PWM_PERIOD_US cfg) 0) [0..<NUM_LEDS]\<rparr>"
  by (simp add: turn_off_all_leds_def turn_off_loop_eq)

lemma cycle_trace:
  assumes "0 \<le> sint (FADE_STEPS cfg)"
  shows "fst (cycle cfg e (c, w)) = (c + 1) mod NUM_LEDS \<and>
         (\<exists>rest. trace (snd (cycle cfg e (c, w))) =
            trace (fade_led cfg e c True (printk (Fading c) w)) @
            Sleep 200 # PwmSet c (PWM_PERIOD_US cfg) (pulse_width cfg False 0) # rest)"
proof -
  let ?w2 = "fade_led cfg e c True (printk (Fading c) w)"
  obtain rest where "trace (fade_led cfg e c False (k_msleep 200 ?w2)) =
      trace (k_msleep 200 ?w2) @ PwmSet c (PWM_PERIOD_US cfg) (pulse_width cfg False 0) # rest"
    using fade_led_first_write [OF assms] by blast
  then show ?thesis by (simp add: cycle_def Let_def k_msleep_def emit_def)
qed

lemma cycle_starts:
  "\<exists>rest. trace (snd (cycle cfg e (c, w))) = trace w @ Print (Fading c) # rest"
proof -
  let ?w1 = "printk (Fading c) w"
  let ?w2 = "fade_led cfg e c True ?w1"
  obtain r1 where r1: "trace ?w2 = trace ?w1 @ r1" using fade_led_extends by blast
  obtain r2 where r2: "trace (fade_led cfg e c False (k_msleep 200 ?w2)) = trace (k_msleep 200 ?w2) @ r2"
    using fade_led_extends by blast
  have "trace (snd (cycle cfg e (c, w))) =
          trace (fade_led cfg e c False (k_msleep 200 ?w2)) @ [Sleep 100]"
    by (simp add: cycle_def Let_def trace_k_msleep)
  also have "\<dots> = (trace (k_msleep 200 ?w2) @ r2) @ [Sleep 100]" by (simp only: r2)
  also have "\<dots> = ((trace ?w2 @ [Sleep 200]) @ r2) @ [Sleep 100]" by (simp only: trace_k_msleep)
  also have "\<dots> = (((trace ?w1 @ r1) @ [Sleep 200]) @ r2) @ [Sleep 100]" by (simp only: r1)
  also have "\<dots> = trace w @ Print (Fading c) # (r1 @ [Sleep 200] @ r2 @ [Sleep 100])"
    by (simp add: trace_printk)
  finally show ?thesis by blast
qed

lemma main_loop_extends: "\<exists>rest. trace (snd (main_loop cfg e n s)) = trace (snd s) @ rest"
proof (induction n arbitrary: s)
  case 0
  show ?case by simp
next
  case (Suc n)
  obtain r1 where r1: "trace (snd (main_loop cfg e n (cycle cfg e s))) = trace (snd (cycle cfg e s)) @ r1"
    using Suc.IH by blast
  obtain r2 where r2: "trace (snd (cycle cfg e s)) = trace (snd s) @ Print (Fading (fst s)) # r2"
    using cycle_starts [of cfg e "fst s" "snd s"] by auto
  show ?case by (simp add: r1 r2)
qed

lemma main_loop_Suc_starts:
  "\<exists>rest. trace (snd (main_loop cfg e (Suc n) (c, w))) = trace w @ Print (Fading c) # rest"
proof -
  obtain r1 where r1: "trace (snd (main_loop cfg e n (cycle cfg e (c, w)))) = trace (snd (cycle cfg e (c, w))) @ r1"
    using main_loop_extends by blast
  obtain r2 where r2: "trace (snd (cycle cfg e (c, w))) = trace w @ Print (Fading c) # r2"
    using cycle_starts by blast
  show ?thesis by (simp add: r1 r2)
qed

lemma main_all_ready:
  assumes "\<forall>i < NUM_LEDS. device_is_ready e i"
  shows "main cfg e n = (None, snd (main_loop cfg e n (0, started cfg)))"
proof -
  have "ready_loop e 0 (printk Banner boot) =
    (True, (printk Banner boot)\<lparr>trace := trace (printk Banner boot) @ concat (map ready_events [0..<NUM_LEDS])\<rparr>)"
    using assms by (intro ready_loop_all_ready) simp_all
  then show ?thesis
    by (simp add: main_def Let_def turn_off_all_leds_eq started_def printk_def emit_def boot_def)
qed

lemma main_not_ready:
  assumes "k < NUM_LEDS" "\<not> device_is_ready e k" "\<forall>i < k. device_is_ready e i"
  shows "main cfg e n = (Some (- 1), \<lparr>pwm_calls = 0,
           trace = Print Banner # concat (map ready_events [0..<k]) @
                   [ReadyCheck k, Print (NotReady k)]\<rparr>)"
proof -
  have "ready_loop e 0 (printk Banner boot) =
    (False, (printk Banner boot)\<lparr>trace := trace (printk Banner boot) @ concat (map ready_events [0..<k]) @
                          [ReadyCheck k, Print (NotReady k)]\<rparr>)"
    using assms by (intro ready_loop_not_ready) simp_all
  then show ?thesis
    by (simp add: main_def Let_def printk_def emit_def boot_def)
qed

lemma pwm_writes_ready: "pwm_writes (concat (map ready_events xs)) = []"
  by (induction xs) simp_all

lemma no_fading_ready: "Print (Fading c) \<notin> set (concat (map ready_events xs))"
  by (induction xs) simp_all

section \<open>The claims\<close>

text \<open>
  C1. If \<open>pwm_set_dt\<close> fails at step \<open>k\<close> of a call of \<open>fade_led\<close>, no write for a
  later step happens in that call, and the error is propagated to the caller.

  The first half is \<open>fade_led_failure\<close> above: the call ends with the failed write and the
  message. The second half does not hold in the code: \<open>fade_led\<close> returns \<open>void\<close>, so
  its caller is handed nothing. The run below is the shipped configuration on LED 0, fading
  in, with the write of step 2 failing with \<open>-5\<close>: the call makes three writes and prints
  the code, and the pass of the loop in \<open>main\<close> that made the call goes on to
  \<open>k_msleep(200)\<close> and to the first write of the fade-out, as after a successful fade.
\<close>

theorem fade_led_failure_stays_inside:
  "fade_led shipped (failing_at 2) 0 True boot =
     \<lparr>pwm_calls = 3,
      trace = [PwmSet 0 1000 0, Sleep 10, PwmSet 0 1000 10, Sleep 10, PwmSet 0 1000 20,
               Print (PwmError (- 5))]\<rparr> \<and>
   fst (cycle shipped (failing_at 2) (0, boot)) = 1 \<and>
   take 9 (trace (snd (cycle shipped (failing_at 2) (0, boot)))) =
     [Print (Fading 0), PwmSet 0 1000 0, Sleep 10, PwmSet 0 1000 10, Sleep 10, PwmSet 0 1000 20,
      Print (PwmError (- 5)), Sleep 200, PwmSet 0 1000 1000]"
proof (intro conjI)
  have nn: "0 \<le> sint (FADE_STEPS shipped)" by (simp add: shipped_def)
  have u: "[0..1::int] = [0, 1]" by (simp add: upto_rec1)
  have v: "pulse_width shipped True 0 = 0" "pulse_width shipped True 1 = 10"
    "pulse_width shipped True 2 = 20" "PWM_PERIOD_US shipped = 1000" "FADE_STEP_MS shipped = 10"
    by (simp_all add: pulse_width_def shipped_def)
  have g: "fade_led shipped (failing_at 2) 0 True w =
     w\<lparr>pwm_calls := pwm_calls w + nat 2 + 1,
       trace := trace w @ concat (map (step_events shipped 0 True) [0..2 - 1]) @
                [PwmSet 0 (PWM_PERIOD_US shipped) (pulse_width shipped True 2),
                 Print (PwmError (pwm_ret (failing_at 2) (pwm_calls w + nat 2)))]\<rparr>"
    if "pwm_calls w = 0" for w
    using that by (intro fade_led_failure) (simp_all add: shipped_def failing_at_def)
  show "fade_led shipped (failing_at 2) 0 True boot =
     \<lparr>pwm_calls = 3,
      trace = [PwmSet 0 1000 0, Sleep 10, PwmSet 0 1000 10, Sleep 10, PwmSet 0 1000 20,
               Print (PwmError (- 5))]\<rparr>"
    by (subst g) (simp_all add: boot_def u v failing_at_def)
  have f: "trace (fade_led shipped (failing_at 2) 0 True (printk (Fading 0) boot)) =
     [Print (Fading 0), PwmSet 0 1000 0, Sleep 10, PwmSet 0 1000 10, Sleep 10, PwmSet 0 1000 20,
      Print (PwmError (- 5))]"
    by (subst g) (simp_all add: boot_def printk_def emit_def u v failing_at_def)
  have p: "pulse_width shipped False 0 = 1000" "PWM_PERIOD_US shipped = 1000"
    by (simp_all add: pulse_width_def shipped_def)
  from cycle_trace [OF nn, of "failing_at 2" 0 boot]
  show "fst (cycle shipped (failing_at 2) (0, boot)) = 1"
    by (simp add: NUM_LEDS_def)
  from cycle_trace [OF nn, of "failing_at 2" 0 boot]
  show "take 9 (trace (snd (cycle shipped (failing_at 2) (0, boot)))) =
     [Print (Fading 0), PwmSet 0 1000 0, Sleep 10, PwmSet 0 1000 10, Sleep 10, PwmSet 0 1000 20,
      Print (PwmError (- 5)), Sleep 200, PwmSet 0 1000 1000]"
    by (auto simp: f p)
qed

text \<open>
  C2. When a fade-in or a fade-out meets a driver error, the cycle halts at that LED: the
  loop does not go on to the hold, the fade-out or the next LED.

  The code does go on. The run below is \<open>main\<close> under the shipped configuration on a
  platform whose write number 4, the first write of the fade-in on LED 0, fails with
  \<open>-5\<close>: \<open>main\<close> has not returned after two passes of the loop, the failed write is
  followed by the message, the hold of 200 ms and the first write of the fade-out on the
  same LED, and the loop reaches \<open>"Fading LED 1"\<close>. The README of the sample says
  "If a runtime error occurs, the sample exits without printing to the console", the path
  for a device that is not ready returns \<open>-1\<close>, and \<open>main\<close> declares \<open>int ret\<close> without ever
  assigning it.
\<close>

theorem main_continues_after_failed_fade:
  "fst (main shipped (failing_at 4) 2) = None \<and>
   take 18 (trace (snd (main shipped (failing_at 4) 2))) =
     [Print Banner, ReadyCheck 0, Print (Ready 0), ReadyCheck 1, Print (Ready 1),
      ReadyCheck 2, Print (Ready 2), ReadyCheck 3, Print (Ready 3),
      PwmSet 0 1000 0, PwmSet 1 1000 0, PwmSet 2 1000 0, PwmSet 3 1000 0,
      Print (Fading 0), PwmSet 0 1000 0, Print (PwmError (- 5)), Sleep 200, PwmSet 0 1000 1000] \<and>
   Print (Fading 1) \<in> set (trace (snd (main shipped (failing_at 4) 2)))"
proof -
  let ?e = "failing_at 4"
  let ?X = "cycle shipped ?e (0, started shipped)"
  have r: "\<forall>i < NUM_LEDS. device_is_ready ?e i" by (simp add: failing_at_def)
  have nn: "0 \<le> sint (FADE_STEPS shipped)" by (simp add: shipped_def)
  have d: "[0..<NUM_LEDS] = [0, 1, 2, 3]" by (simp add: NUM_LEDS_def upt_rec)
  have m: "main shipped ?e 2 = (None, snd (main_loop shipped ?e (Suc 0) ?X))"
    by (simp add: main_all_ready [OF r] numeral_2_eq_2)
  have p: "pulse_width shipped False 0 = 1000" "PWM_PERIOD_US shipped = 1000"
    by (simp_all add: pulse_width_def shipped_def)
  have ts: "pwm_calls (started shipped) = 4"
    "trace (started shipped) =
     [Print Banner, ReadyCheck 0, Print (Ready 0), ReadyCheck 1, Print (Ready 1),
      ReadyCheck 2, Print (Ready 2), ReadyCheck 3, Print (Ready 3),
      PwmSet 0 1000 0, PwmSet 1 1000 0, PwmSet 2 1000 0, PwmSet 3 1000 0]"
    by (simp_all add: started_def d p) (simp add: NUM_LEDS_def)
  have f: "trace (fade_led shipped ?e 0 True (printk (Fading 0) (started shipped))) =
     [Print Banner, ReadyCheck 0, Print (Ready 0), ReadyCheck 1, Print (Ready 1),
      ReadyCheck 2, Print (Ready 2), ReadyCheck 3, Print (Ready 3),
      PwmSet 0 1000 0, PwmSet 1 1000 0, PwmSet 2 1000 0, PwmSet 3 1000 0,
      Print (Fading 0), PwmSet 0 1000 0, Print (PwmError (- 5))]"
  proof -
    have "fade_led shipped ?e 0 True (printk (Fading 0) (started shipped)) =
      (printk (Fading 0) (started shipped))
        \<lparr>pwm_calls := pwm_calls (printk (Fading 0) (started shipped)) + nat 0 + 1,
         trace := trace (printk (Fading 0) (started shipped)) @
                  concat (map (step_events shipped 0 True) [0..0 - 1]) @
                  [PwmSet 0 (PWM_PERIOD_US shipped) (pulse_width shipped True 0),
                   Print (PwmError (pwm_ret ?e
                     (pwm_calls (printk (Fading 0) (started shipped)) + nat 0)))]\<rparr>"
      by (intro fade_led_failure) (simp_all add: nn failing_at_def printk_def emit_def ts)
    then show ?thesis
      by (simp add: printk_def emit_def pulse_width_in_0 failing_at_def ts p)
  qed
  from cycle_trace [OF nn, of ?e 0 "started shipped"]
  obtain rest where x: "fst ?X = 1"
    "trace (snd ?X) = trace (fade_led shipped ?e 0 True (printk (Fading 0) (started shipped))) @
       Sleep 200 # PwmSet 0 1000 1000 # rest"
    by (auto simp: NUM_LEDS_def p)
  obtain rest' where "trace (snd (main_loop shipped ?e (Suc 0) ?X)) =
      trace (snd ?X) @ Print (Fading (fst ?X)) # rest'"
    using main_loop_Suc_starts [of shipped ?e 0 "fst ?X" "snd ?X"]
    unfolding prod.collapse by blast
  then have t: "trace (snd (main shipped ?e 2)) =
     [Print Banner, ReadyCheck 0, Print (Ready 0), ReadyCheck 1, Print (Ready 1),
      ReadyCheck 2, Print (Ready 2), ReadyCheck 3, Print (Ready 3),
      PwmSet 0 1000 0, PwmSet 1 1000 0, PwmSet 2 1000 0, PwmSet 3 1000 0,
      Print (Fading 0), PwmSet 0 1000 0, Print (PwmError (- 5)), Sleep 200, PwmSet 0 1000 1000] @
     rest @ Print (Fading 1) # rest'"
    by (simp add: m x f del: main_loop.simps)
  show ?thesis
    by (simp add: t) (simp add: m)
qed

text \<open>
  C3. For every \<open>FADE_STEPS \<ge> 1\<close>: a fade-in has pulse width 0 at step 0 and a fade-out
  has pulse width 0 at step \<open>FADE_STEPS\<close>, whatever the period. The other end, the
  fade-in at step \<open>FADE_STEPS\<close> and the fade-out at step 0, is exactly the period if and
  only if \<open>PWM_PERIOD_US * FADE_STEPS < 2 ^ 32\<close>, that is, if the product in
  \<open>unsigned int\<close> does not wrap; this is so for the shipped period 1000 and step count
  100. For \<open>FADE_STEPS < INT_MAX\<close>, where the loop ends after step \<open>FADE_STEPS\<close>, the
  last write of a fade-out in which no write fails has pulse width 0, and the last write of
  such a fade-in has the period as its pulse width when the product does not wrap.

  The statement for every period and step count fails where the product wraps: with
  period \<open>0x80000000\<close> and two steps the fade-in writes 0, \<open>0x40000000\<close> and 0.
\<close>

theorem ramp_endpoints:
  assumes "1 \<le> sint (FADE_STEPS cfg)"
  shows "pulse_width cfg True 0 = 0 \<and>
         pulse_width cfg False (sint (FADE_STEPS cfg)) = 0 \<and>
         (pulse_width cfg True (sint (FADE_STEPS cfg)) = PWM_PERIOD_US cfg \<longleftrightarrow>
            unat (PWM_PERIOD_US cfg) * nat (sint (FADE_STEPS cfg)) < 2 ^ 32) \<and>
         (pulse_width cfg False 0 = PWM_PERIOD_US cfg \<longleftrightarrow>
            unat (PWM_PERIOD_US cfg) * nat (sint (FADE_STEPS cfg)) < 2 ^ 32) \<and>
         (sint (FADE_STEPS cfg) < INT_MAX \<and>
          (\<forall>i \<le> nat (sint (FADE_STEPS cfg)). 0 \<le> pwm_ret e (pwm_calls w + i)) \<longrightarrow>
            last (new_writes w (fade_led cfg e led False w)) = (led, PWM_PERIOD_US cfg, 0)) \<and>
         (sint (FADE_STEPS cfg) < INT_MAX \<and>
          unat (PWM_PERIOD_US cfg) * nat (sint (FADE_STEPS cfg)) < 2 ^ 32 \<and>
          (\<forall>i \<le> nat (sint (FADE_STEPS cfg)). 0 \<le> pwm_ret e (pwm_calls w + i)) \<longrightarrow>
            last (new_writes w (fade_led cfg e led True w)) =
              (led, PWM_PERIOD_US cfg, PWM_PERIOD_US cfg))"
proof (intro conjI impI)
  show "pulse_width cfg True 0 = 0" by (rule pulse_width_in_0)
  show "pulse_width cfg False (sint (FADE_STEPS cfg)) = 0" by (rule pulse_width_out_last)
  show "pulse_width cfg True (sint (FADE_STEPS cfg)) = PWM_PERIOD_US cfg \<longleftrightarrow>
            unat (PWM_PERIOD_US cfg) * nat (sint (FADE_STEPS cfg)) < 2 ^ 32"
    using assms by (rule pulse_width_period_iff(1))
  show "pulse_width cfg False 0 = PWM_PERIOD_US cfg \<longleftrightarrow>
            unat (PWM_PERIOD_US cfg) * nat (sint (FADE_STEPS cfg)) < 2 ^ 32"
    using assms by (rule pulse_width_period_iff(2))
next
  assume a: "sint (FADE_STEPS cfg) < INT_MAX \<and>
          (\<forall>i \<le> nat (sint (FADE_STEPS cfg)). 0 \<le> pwm_ret e (pwm_calls w + i))"
  have ok: "\<forall>i \<le> nat (sint (FADE_STEPS cfg)). 0 \<le> pwm_ret e (pwm_calls w + i)"
    using a by blast
  have nn: "0 \<le> sint (FADE_STEPS cfg)" using assms by simp
  show "last (new_writes w (fade_led cfg e led False w)) = (led, PWM_PERIOD_US cfg, 0)"
    by (simp add: last_write_of_full_fade [OF nn ok] pulse_width_out_last)
next
  assume a: "sint (FADE_STEPS cfg) < INT_MAX \<and>
          unat (PWM_PERIOD_US cfg) * nat (sint (FADE_STEPS cfg)) < 2 ^ 32 \<and>
          (\<forall>i \<le> nat (sint (FADE_STEPS cfg)). 0 \<le> pwm_ret e (pwm_calls w + i))"
  have nn: "0 \<le> sint (FADE_STEPS cfg)" using assms by simp
  have ok: "\<forall>i \<le> nat (sint (FADE_STEPS cfg)). 0 \<le> pwm_ret e (pwm_calls w + i)"
    using a by blast
  have "pulse_width cfg True (sint (FADE_STEPS cfg)) = PWM_PERIOD_US cfg"
    using pulse_width_period_iff(1) [OF assms] a by blast
  then show "last (new_writes w (fade_led cfg e led True w)) =
              (led, PWM_PERIOD_US cfg, PWM_PERIOD_US cfg)"
    by (simp add: last_write_of_full_fade [OF nn ok])
qed

theorem ramp_endpoints_witness:
  "1 \<le> sint (FADE_STEPS shipped) \<and>
   sint (FADE_STEPS shipped) < INT_MAX \<and>
   unat (PWM_PERIOD_US shipped) * nat (sint (FADE_STEPS shipped)) < 2 ^ 32 \<and>
   0 \<le> pwm_ret healthy (pwm_calls boot + 100) \<and>
   pulse_width shipped True 0 = 0 \<and>
   pulse_width shipped False 100 = 0 \<and>
   pulse_width shipped True 100 = 1000 \<and>
   pulse_width shipped False 0 = 1000 \<and>
   last (new_writes boot (fade_led shipped healthy 0 True boot)) = (0, 1000, 1000) \<and>
   last (new_writes boot (fade_led shipped healthy 0 False boot)) = (0, 1000, 0)"
  using ramp_endpoints [of shipped healthy boot 0]
  by (simp add: shipped_def healthy_def INT_MAX_def)

theorem ramp_endpoints_counterexample:
  "1 \<le> sint (FADE_STEPS wrapping) \<and> 1 \<le> unat (PWM_PERIOD_US wrapping) \<and>
   PWM_PERIOD_US wrapping = 0x80000000 \<and>
   pulse_width wrapping True (sint (FADE_STEPS wrapping)) = 0 \<and>
   pulse_width wrapping False 0 = 0 \<and>
   new_writes boot (fade_led wrapping healthy 0 True boot) =
     [(0, 0x80000000, 0), (0, 0x80000000, 0x40000000), (0, 0x80000000, 0)]"
  by (simp add: run_simps wrapping_def healthy_def)

text \<open>
  C4. For every \<open>FADE_STEPS \<ge> 1\<close> and every period with
  \<open>PWM_PERIOD_US * FADE_STEPS < 2 ^ 32\<close>: the pulse width of a fade-in does not decrease
  from one step to a later one and that of a fade-out does not increase, and so the pulse
  widths one call of \<open>fade_led\<close> writes are in ascending order for a fade-in and in
  descending order for a fade-out, whether the call completes or stops at a failed write.

  Without the bound on the product the statement fails: with period \<open>0x80000000\<close> and
  two steps both directions write 0, \<open>0x40000000\<close>, 0.
\<close>

theorem ramp_monotone:
  assumes "1 \<le> sint (FADE_STEPS cfg)"
    and "unat (PWM_PERIOD_US cfg) * nat (sint (FADE_STEPS cfg)) < 2 ^ 32"
  shows "(0 \<le> s \<and> s \<le> t \<and> t \<le> sint (FADE_STEPS cfg) \<longrightarrow>
            pulse_width cfg True s \<le> pulse_width cfg True t \<and>
            pulse_width cfg False t \<le> pulse_width cfg False s) \<and>
         sorted (map (snd \<circ> snd) (new_writes w (fade_led cfg e led True w))) \<and>
         sorted (rev (map (snd \<circ> snd) (new_writes w (fade_led cfg e led False w))))"
proof (intro conjI impI)
  assume "0 \<le> s \<and> s \<le> t \<and> t \<le> sint (FADE_STEPS cfg)"
  then show "pulse_width cfg True s \<le> pulse_width cfg True t"
    and "pulse_width cfg False t \<le> pulse_width cfg False s"
    using pulse_width_mono [OF assms, of s t] by simp_all
next
  have nn: "0 \<le> sint (FADE_STEPS cfg)" using assms(1) by simp
  obtain k where k: "0 \<le> k" "k \<le> sint (FADE_STEPS cfg)"
    "new_writes w (fade_led cfg e led True w) =
       map (\<lambda>s. (led, PWM_PERIOD_US cfg, pulse_width cfg True s)) [0..k]"
    using nn by (rule new_writes_fade_led)
  have "sorted (map (pulse_width cfg True) [0..k])"
    using k(2) by (intro sorted_map_upto pulse_width_mono(1) [OF assms]) simp_all
  then show "sorted (map (snd \<circ> snd) (new_writes w (fade_led cfg e led True w)))"
    by (simp add: k(3) comp_def)
next
  have nn: "0 \<le> sint (FADE_STEPS cfg)" using assms(1) by simp
  obtain k where k: "0 \<le> k" "k \<le> sint (FADE_STEPS cfg)"
    "new_writes w (fade_led cfg e led False w) =
       map (\<lambda>s. (led, PWM_PERIOD_US cfg, pulse_width cfg False s)) [0..k]"
    using nn by (rule new_writes_fade_led)
  have "sorted_wrt (\<lambda>s t. pulse_width cfg False s \<ge> pulse_width cfg False t) [0..k]"
  proof (rule sorted_wrt_mono_rel [of "[0..k]" "(\<le>)"])
    fix s t assume "s \<in> set [0..k]" "t \<in> set [0..k]" "s \<le> t"
    then show "pulse_width cfg False t \<le> pulse_width cfg False s"
      using k(2) by (intro pulse_width_mono(2) [OF assms]) simp_all
  next
    show "sorted [0..k]" by simp
  qed
  then have "sorted_wrt (\<ge>) (map (pulse_width cfg False) [0..k])"
    by (simp add: sorted_wrt_map)
  then show "sorted (rev (map (snd \<circ> snd) (new_writes w (fade_led cfg e led False w))))"
    by (simp add: k(3) comp_def sorted_wrt_rev rev_map [symmetric])
qed

theorem ramp_monotone_witness:
  "1 \<le> sint (FADE_STEPS shipped) \<and>
   unat (PWM_PERIOD_US shipped) * nat (sint (FADE_STEPS shipped)) < 2 ^ 32 \<and>
   (0::int) \<le> 33 \<and> (33::int) \<le> 34 \<and> 34 \<le> sint (FADE_STEPS shipped) \<and>
   pulse_width shipped True 33 \<le> pulse_width shipped True 34 \<and>
   pulse_width shipped False 34 \<le> pulse_width shipped False 33 \<and>
   sorted (map (snd \<circ> snd) (new_writes boot (fade_led shipped healthy 0 True boot))) \<and>
   sorted (rev (map (snd \<circ> snd) (new_writes boot (fade_led shipped healthy 0 False boot))))"
  using ramp_monotone [of shipped 33 34 boot healthy 0]
  by (simp add: shipped_def)

theorem ramp_monotone_counterexample:
  "1 \<le> sint (FADE_STEPS wrapping) \<and> 1 \<le> unat (PWM_PERIOD_US wrapping) \<and>
   pulse_width wrapping True 1 = 0x40000000 \<and> pulse_width wrapping True 2 = 0 \<and>
   \<not> pulse_width wrapping True 1 \<le> pulse_width wrapping True 2 \<and>
   map (snd \<circ> snd) (new_writes boot (fade_led wrapping healthy 0 True boot)) = [0, 0x40000000, 0] \<and>
   map (snd \<circ> snd) (new_writes boot (fade_led wrapping healthy 0 False boot)) = [0, 0x40000000, 0]"
  by (simp add: run_simps wrapping_def healthy_def)

text \<open>
  C5. For every \<open>FADE_STEPS \<ge> 1\<close>, every period, both directions and every step from 0
  to \<open>FADE_STEPS\<close>, the pulse width \<open>fade_led\<close> computes lies between 0 and the period,
  also where the product wraps; so every write of a call of \<open>fade_led\<close> goes to the LED
  of the call with the configured period and a pulse width within it.
\<close>

theorem pulse_width_within_period:
  assumes "1 \<le> sint (FADE_STEPS cfg)"
  shows "(0 \<le> step \<and> step \<le> sint (FADE_STEPS cfg) \<longrightarrow>
            0 \<le> pulse_width cfg fade_in step \<and> pulse_width cfg fade_in step \<le> PWM_PERIOD_US cfg) \<and>
         (x \<in> set (new_writes w (fade_led cfg e led fade_in w)) \<longrightarrow>
            fst x = led \<and> fst (snd x) = PWM_PERIOD_US cfg \<and> 0 \<le> snd (snd x) \<and>
            snd (snd x) \<le> PWM_PERIOD_US cfg)"
proof (intro conjI impI)
  assume "0 \<le> step \<and> step \<le> sint (FADE_STEPS cfg)"
  then show "pulse_width cfg fade_in step \<le> PWM_PERIOD_US cfg"
    using assms by (simp add: pulse_width_le)
next
  assume x: "x \<in> set (new_writes w (fade_led cfg e led fade_in w))"
  have nn: "0 \<le> sint (FADE_STEPS cfg)" using assms by simp
  obtain k where k: "0 \<le> k" "k \<le> sint (FADE_STEPS cfg)"
    "new_writes w (fade_led cfg e led fade_in w) =
       map (\<lambda>s. (led, PWM_PERIOD_US cfg, pulse_width cfg fade_in s)) [0..k]"
    using nn by (rule new_writes_fade_led)
  from x obtain s where s: "0 \<le> s" "s \<le> k" "x = (led, PWM_PERIOD_US cfg, pulse_width cfg fade_in s)"
    unfolding k(3) by auto
  have "pulse_width cfg fade_in s \<le> PWM_PERIOD_US cfg"
    using assms s(1,2) k(2) by (intro pulse_width_le) simp_all
  then show "fst x = led" "fst (snd x) = PWM_PERIOD_US cfg" "snd (snd x) \<le> PWM_PERIOD_US cfg"
    using s(3) by simp_all
qed simp_all

theorem pulse_width_within_period_witness:
  "1 \<le> sint (FADE_STEPS shipped) \<and> (0::int) \<le> 37 \<and> 37 \<le> sint (FADE_STEPS shipped) \<and>
   (0, 1000, 20) \<in> set (new_writes boot (fade_led shipped (failing_at 2) 0 True boot)) \<and>
   pulse_width shipped True 37 \<le> PWM_PERIOD_US shipped \<and>
   snd (snd (0 :: nat, 1000 :: u32, 20 :: u32)) \<le> PWM_PERIOD_US shipped"
proof -
  have m: "(0, 1000, 20) \<in> set (new_writes boot (fade_led shipped (failing_at 2) 0 True boot))"
    by (simp add: run_simps shipped_def failing_at_def)
  have h: "1 \<le> sint (FADE_STEPS shipped)" by (simp add: shipped_def)
  show ?thesis
    using pulse_width_within_period [OF h, of 37 True "(0, 1000, 20)" boot "failing_at 2" 0] m
    by (simp add: shipped_def)
qed

text \<open>
  C6. For every LED, direction and \<open>FADE_STEPS\<close> with \<open>1 \<le> FADE_STEPS < INT_MAX\<close>: a
  call of \<open>fade_led\<close> in which no call of \<open>pwm_set_dt\<close> fails (every call made between
  entry and return has a return code that is not negative) makes exactly
  \<open>FADE_STEPS + 1\<close> duty-cycle writes, counted both by the call counter and by the
  writes recorded in the trace, and returns after the sleep that follows the last of them.

  For \<open>FADE_STEPS = INT_MAX\<close> the statement fails: the loop runs through step
  \<open>INT_MAX\<close> and then into the overflow of \<open>step++\<close>; it has no regular exit after
  \<open>FADE_STEPS + 1\<close> writes.
\<close>

theorem fade_led_write_count:
  assumes "1 \<le> sint (FADE_STEPS cfg)"
    and "sint (FADE_STEPS cfg) < INT_MAX"
    and "\<forall>n. pwm_calls w \<le> n \<and> n < pwm_calls (fade_led cfg e led fade_in w) \<longrightarrow> 0 \<le> pwm_ret e n"
  shows "pwm_calls (fade_led cfg e led fade_in w) = pwm_calls w + (nat (sint (FADE_STEPS cfg)) + 1) \<and>
         length (new_writes w (fade_led cfg e led fade_in w)) = nat (sint (FADE_STEPS cfg)) + 1 \<and>
         trace (fade_led cfg e led fade_in w) =
           trace w @ concat (map (step_events cfg led fade_in) [0..sint (FADE_STEPS cfg)])"
proof (cases "\<forall>i \<le> nat (sint (FADE_STEPS cfg)). 0 \<le> pwm_ret e (pwm_calls w + i)")
  case True
  have nn: "0 \<le> sint (FADE_STEPS cfg)" using assms(1) by simp
  obtain k where k:
    "new_writes w (fade_led cfg e led fade_in w) =
       map (\<lambda>s. (led, PWM_PERIOD_US cfg, pulse_width cfg fade_in s)) [0..k]"
    "(\<forall>i \<le> nat (sint (FADE_STEPS cfg)). 0 \<le> pwm_ret e (pwm_calls w + i)) \<longrightarrow> k = sint (FADE_STEPS cfg)"
    using nn by (rule new_writes_fade_led)
  have "k = sint (FADE_STEPS cfg)" using k(2) True by blast
  then have "length (new_writes w (fade_led cfg e led fade_in w)) = nat (sint (FADE_STEPS cfg)) + 1"
    using nn by (simp add: k(1))
  then show ?thesis
    using nn by (simp add: fade_led_success [OF nn True] no_overflow_events [OF assms(2)])
next
  case False
  then obtain j where j: "j \<le> nat (sint (FADE_STEPS cfg))" "pwm_ret e (pwm_calls w + j) < 0"
    "\<forall>i < j. 0 \<le> pwm_ret e (pwm_calls w + i)"
    by (rule first_failure)
  have "fade_led cfg e led fade_in w =
     w\<lparr>pwm_calls := pwm_calls w + nat (int j) + 1,
       trace := trace w @ concat (map (step_events cfg led fade_in) [0..int j - 1]) @
                [PwmSet led (PWM_PERIOD_US cfg) (pulse_width cfg fade_in (int j)),
                 Print (PwmError (pwm_ret e (pwm_calls w + nat (int j))))]\<rparr>"
    using j assms(1) by (intro fade_led_failure) (simp_all add: le_nat_iff)
  then have "pwm_calls (fade_led cfg e led fade_in w) = pwm_calls w + j + 1" by simp
  then have "0 \<le> pwm_ret e (pwm_calls w + j)" using assms(3) by simp
  then show ?thesis using j(2) by simp
qed

theorem fade_led_write_count_witness:
  "1 \<le> sint (FADE_STEPS shipped) \<and> sint (FADE_STEPS shipped) < INT_MAX \<and>
   0 \<le> pwm_ret healthy 0 \<and> 0 \<le> pwm_ret healthy 100 \<and>
   pwm_calls (fade_led shipped healthy 0 True boot) = 101 \<and>
   length (new_writes boot (fade_led shipped healthy 0 True boot)) = 101 \<and>
   last (trace (fade_led shipped healthy 0 True boot)) = Sleep 10"
proof -
  have h: "1 \<le> sint (FADE_STEPS shipped)" "sint (FADE_STEPS shipped) < INT_MAX"
    by (simp_all add: shipped_def INT_MAX_def)
  have ok: "\<forall>n. pwm_calls boot \<le> n \<and> n < pwm_calls (fade_led shipped healthy 0 True boot)
      \<longrightarrow> 0 \<le> pwm_ret healthy n"
    by (simp add: healthy_def)
  have n: "nat (sint (FADE_STEPS shipped)) = 100" by (simp add: shipped_def)
  have up: "[0..sint (FADE_STEPS shipped)] = [0..sint (FADE_STEPS shipped) - 1] @ [sint (FADE_STEPS shipped)]"
    using h(1) by (simp add: upto_rec2)
  have ms: "FADE_STEP_MS shipped = 10" by (simp add: shipped_def)
  have "trace (fade_led shipped healthy 0 True boot) =
     concat (map (step_events shipped 0 True) [0..sint (FADE_STEPS shipped)])"
    using fade_led_write_count [OF h ok] by (simp add: boot_def)
  then have "last (trace (fade_led shipped healthy 0 True boot)) = Sleep 10"
    by (subst (asm) up) (simp add: ms)
  then show ?thesis
    using fade_led_write_count [OF h ok] h by (simp add: n boot_def healthy_def)
qed

theorem fade_led_write_count_counterexample:
  "1 \<le> sint (FADE_STEPS at_int_max) \<and> sint (FADE_STEPS at_int_max) = INT_MAX \<and>
   0 \<le> pwm_ret healthy 0 \<and> 0 \<le> pwm_ret healthy 2147483647 \<and>
   pwm_calls (fade_led at_int_max healthy 0 True boot) = 2147483648 \<and>
   last (trace (fade_led at_int_max healthy 0 True boot)) = SignedOverflow"
proof -
  have m: "sint (FADE_STEPS at_int_max) = INT_MAX" by (simp add: at_int_max_def INT_MAX_def)
  have nn: "0 \<le> sint (FADE_STEPS at_int_max)" by (simp add: m INT_MAX_def)
  have ok: "\<forall>i \<le> nat (sint (FADE_STEPS at_int_max)). 0 \<le> pwm_ret healthy (pwm_calls boot + i)"
    by (simp add: healthy_def)
  have ov: "overflow_events at_int_max = [SignedOverflow]" by (simp add: overflow_events_def m)
  have t: "trace (fade_led at_int_max healthy 0 True boot) =
      (trace boot @ concat (map (step_events at_int_max 0 True) [0..sint (FADE_STEPS at_int_max)])) @
      [SignedOverflow]"
    by (simp add: fade_led_success [OF nn ok] ov)
  have "last (trace (fade_led at_int_max healthy 0 True boot)) = SignedOverflow"
    unfolding t by (rule last_snoc)
  moreover have "pwm_calls (fade_led at_int_max healthy 0 True boot) = 2147483648"
  proof -
    have "pwm_calls (fade_led at_int_max healthy 0 True boot) =
        pwm_calls boot + (nat (sint (FADE_STEPS at_int_max)) + 1)"
      by (simp add: fade_led_success [OF nn ok])
    then show ?thesis by (simp add: m INT_MAX_def boot_def)
  qed
  moreover have "1 \<le> sint (FADE_STEPS at_int_max)" by (simp add: m INT_MAX_def)
  moreover have "0 \<le> pwm_ret healthy 0 \<and> 0 \<le> pwm_ret healthy 2147483647" by (simp add: healthy_def)
  ultimately show ?thesis using m by blast
qed

text \<open>
  C7. At startup the readiness of every LED is checked before any duty-cycle write and
  before the loop: when all are ready, the trace begins with the banner and the four
  checks. When some LED is not ready, \<open>main\<close> returns \<open>-1\<close> after the check of the
  first such LED and the message that names it, whatever number of passes is observed; the
  trace holds no write and no \<open>"Fading LED"\<close> message.
\<close>

theorem startup_readiness_check:
  "((\<forall>i < NUM_LEDS. device_is_ready e i) \<longrightarrow>
      fst (main cfg e n) = None \<and>
      (\<exists>rest. trace (snd (main cfg e n)) =
         Print Banner # concat (map ready_events [0..<NUM_LEDS]) @ rest)) \<and>
   ((\<exists>i < NUM_LEDS. \<not> device_is_ready e i) \<longrightarrow>
      (\<exists>k < NUM_LEDS. \<not> device_is_ready e k \<and>
         main cfg e n = (Some (- 1), \<lparr>pwm_calls = 0,
           trace = Print Banner # concat (map ready_events [0..<k]) @
                   [ReadyCheck k, Print (NotReady k)]\<rparr>)) \<and>
      pwm_writes (trace (snd (main cfg e n))) = [] \<and>
      (\<forall>c. Print (Fading c) \<notin> set (trace (snd (main cfg e n)))))"
proof (intro conjI impI)
  assume r: "\<forall>i < NUM_LEDS. device_is_ready e i"
  show "fst (main cfg e n) = None" by (simp add: main_all_ready [OF r])
  obtain rest where "trace (snd (main_loop cfg e n (0, started cfg))) = trace (snd (0::nat, started cfg)) @ rest"
    using main_loop_extends by blast
  then show "\<exists>rest. trace (snd (main cfg e n)) =
         Print Banner # concat (map ready_events [0..<NUM_LEDS]) @ rest"
    by (simp add: main_all_ready [OF r] started_def)
next
  assume "\<exists>i < NUM_LEDS. \<not> device_is_ready e i"
  then obtain k where k: "k < NUM_LEDS" "\<not> device_is_ready e k" "\<forall>i < k. device_is_ready e i"
    by (rule first_not_ready)
  note m = main_not_ready [OF k, of cfg n]
  show "\<exists>k < NUM_LEDS. \<not> device_is_ready e k \<and>
         main cfg e n = (Some (- 1), \<lparr>pwm_calls = 0,
           trace = Print Banner # concat (map ready_events [0..<k]) @
                   [ReadyCheck k, Print (NotReady k)]\<rparr>)"
    using k(1,2) m by blast
  show "pwm_writes (trace (snd (main cfg e n))) = []"
    by (simp add: m pwm_writes_append pwm_writes_ready)
  show "\<forall>c. Print (Fading c) \<notin> set (trace (snd (main cfg e n)))"
    by (simp add: m no_fading_ready)
qed

theorem startup_readiness_check_witness:
  "2 < NUM_LEDS \<and> \<not> device_is_ready (not_ready_at 2) 2 \<and>
   fst (main shipped (not_ready_at 2) 7) = Some (- 1) \<and>
   pwm_writes (trace (snd (main shipped (not_ready_at 2) 7))) = [] \<and>
   last (trace (snd (main shipped (not_ready_at 2) 7))) = Print (NotReady 2) \<and>
   device_is_ready healthy 0 \<and> device_is_ready healthy 1 \<and>
   device_is_ready healthy 2 \<and> device_is_ready healthy 3 \<and>
   fst (main shipped healthy 7) = None \<and>
   take 9 (trace (snd (main shipped healthy 7))) =
     [Print Banner, ReadyCheck 0, Print (Ready 0), ReadyCheck 1, Print (Ready 1),
      ReadyCheck 2, Print (Ready 2), ReadyCheck 3, Print (Ready 3)]"
proof -
  have d: "[0..<NUM_LEDS] = [0, 1, 2, 3]" by (simp add: NUM_LEDS_def upt_rec)
  have bad: "\<exists>i < NUM_LEDS. \<not> device_is_ready (not_ready_at 2) i"
    by (rule exI [of _ 2]) (simp add: NUM_LEDS_def not_ready_at_def)
  have good: "\<forall>i < NUM_LEDS. device_is_ready healthy i" by (simp add: healthy_def)
  from startup_readiness_check [of "not_ready_at 2" shipped 7] bad
  have 1: "fst (main shipped (not_ready_at 2) 7) = Some (- 1) \<and>
      pwm_writes (trace (snd (main shipped (not_ready_at 2) 7))) = [] \<and>
      last (trace (snd (main shipped (not_ready_at 2) 7))) = Print (NotReady 2)"
    by (auto simp: not_ready_at_def)
  from startup_readiness_check [of healthy shipped 7] good
  have 2: "fst (main shipped healthy 7) = None \<and>
     take 9 (trace (snd (main shipped healthy 7))) =
     [Print Banner, ReadyCheck 0, Print (Ready 0), ReadyCheck 1, Print (Ready 1),
      ReadyCheck 2, Print (Ready 2), ReadyCheck 3, Print (Ready 3)]"
    by (auto simp: d)
  show ?thesis using 1 2 by (simp add: NUM_LEDS_def not_ready_at_def healthy_def)
qed

text \<open>
  C8. With period 1000 and three steps the fade-in computes the pulse widths 0, 333, 666
  and 1000: the first increment is 333 and the last is 334, and both end points are
  exact. A call of \<open>fade_led\<close> in which the four writes succeed writes exactly these.
\<close>

theorem fade_in_1000_by_3:
  "map (pulse_width (shipped\<lparr>FADE_STEPS := 3\<rparr>) True) [0, 1, 2, 3] = [0, 333, 666, 1000] \<and>
   pulse_width (shipped\<lparr>FADE_STEPS := 3\<rparr>) True 1 - pulse_width (shipped\<lparr>FADE_STEPS := 3\<rparr>) True 0 = 333 \<and>
   pulse_width (shipped\<lparr>FADE_STEPS := 3\<rparr>) True 3 - pulse_width (shipped\<lparr>FADE_STEPS := 3\<rparr>) True 2 = 334 \<and>
   ((\<forall>i \<le> 3. 0 \<le> pwm_ret e (pwm_calls w + i)) \<longrightarrow>
      new_writes w (fade_led (shipped\<lparr>FADE_STEPS := 3\<rparr>) e led True w) =
        [(led, 1000, 0), (led, 1000, 333), (led, 1000, 666), (led, 1000, 1000)])"
proof (intro conjI impI)
  let ?cfg = "shipped\<lparr>FADE_STEPS := 3\<rparr>"
  show v: "map (pulse_width ?cfg True) [0, 1, 2, 3] = [0, 333, 666, 1000]"
    by (simp add: pulse_width_def shipped_def)
  then show "pulse_width ?cfg True 1 - pulse_width ?cfg True 0 = 333"
    and "pulse_width ?cfg True 3 - pulse_width ?cfg True 2 = 334"
    by simp_all
  assume ok: "\<forall>i \<le> 3. 0 \<le> pwm_ret e (pwm_calls w + i)"
  have nn: "0 \<le> sint (FADE_STEPS ?cfg)" by simp
  obtain k where k: 
    "new_writes w (fade_led ?cfg e led True w) =
       map (\<lambda>s. (led, PWM_PERIOD_US ?cfg, pulse_width ?cfg True s)) [0..k]"
    "(\<forall>i \<le> nat (sint (FADE_STEPS ?cfg)). 0 \<le> pwm_ret e (pwm_calls w + i)) \<longrightarrow> k = sint (FADE_STEPS ?cfg)"
    using nn by (rule new_writes_fade_led)
  have "k = 3" using k(2) ok by simp
  moreover have "[0..3::int] = [0, 1, 2, 3]" by (simp add: upto_rec1)
  ultimately show "new_writes w (fade_led ?cfg e led True w) =
        [(led, 1000, 0), (led, 1000, 333), (led, 1000, 666), (led, 1000, 1000)]"
    using v by (simp add: k(1)) (simp add: shipped_def)
qed

theorem fade_in_1000_by_3_witness:
  "0 \<le> pwm_ret healthy (pwm_calls boot + 3) \<and>
   new_writes boot (fade_led (shipped\<lparr>FADE_STEPS := 3\<rparr>) healthy 0 True boot) =
     [(0, 1000, 0), (0, 1000, 333), (0, 1000, 666), (0, 1000, 1000)]"
  using fade_in_1000_by_3 [of healthy boot 0]
  by (simp add: healthy_def)

text \<open>
  C9. The zeroing at startup is best effort: \<open>turn_off_all_leds\<close> makes its four writes
  of pulse width 0 and nothing else, whatever the driver returns, and when all devices are
  ready \<open>main\<close> does not return but enters the loop, whose first action is the message
  \<open>"Fading LED 0"\<close> right after the four writes.
\<close>

theorem startup_zeroing_best_effort:
  assumes "\<forall>i < NUM_LEDS. device_is_ready e i"
  shows "turn_off_all_leds cfg e w =
           w\<lparr>pwm_calls := pwm_calls w + NUM_LEDS,
             trace := trace w @ map (\<lambda>i. PwmSet i (PWM_PERIOD_US cfg) 0) [0..<NUM_LEDS]\<rparr> \<and>
         fst (main cfg e (Suc n)) = None \<and>
         (\<exists>rest. trace (snd (main cfg e (Suc n))) =
            Print Banner # concat (map ready_events [0..<NUM_LEDS]) @
            map (\<lambda>i. PwmSet i (PWM_PERIOD_US cfg) 0) [0..<NUM_LEDS] @
            Print (Fading 0) # rest)"
proof (intro conjI)
  show "turn_off_all_leds cfg e w =
           w\<lparr>pwm_calls := pwm_calls w + NUM_LEDS,
             trace := trace w @ map (\<lambda>i. PwmSet i (PWM_PERIOD_US cfg) 0) [0..<NUM_LEDS]\<rparr>"
    by (rule turn_off_all_leds_eq)
  show "fst (main cfg e (Suc n)) = None" by (simp add: main_all_ready [OF assms])
  obtain rest where "trace (snd (main_loop cfg e (Suc n) (0, started cfg))) =
      trace (started cfg) @ Print (Fading 0) # rest"
    using main_loop_Suc_starts by blast
  then show "\<exists>rest. trace (snd (main cfg e (Suc n))) =
            Print Banner # concat (map ready_events [0..<NUM_LEDS]) @
            map (\<lambda>i. PwmSet i (PWM_PERIOD_US cfg) 0) [0..<NUM_LEDS] @
            Print (Fading 0) # rest"
    by (simp add: main_all_ready [OF assms] started_def)
qed

theorem startup_zeroing_best_effort_witness:
  "device_is_ready all_writes_fail 0 \<and> device_is_ready all_writes_fail 1 \<and>
   device_is_ready all_writes_fail 2 \<and> device_is_ready all_writes_fail 3 \<and>
   pwm_ret all_writes_fail 0 < 0 \<and> pwm_ret all_writes_fail 1 < 0 \<and>
   pwm_ret all_writes_fail 2 < 0 \<and> pwm_ret all_writes_fail 3 < 0 \<and>
   fst (main shipped all_writes_fail 1) = None \<and>
   take 14 (trace (snd (main shipped all_writes_fail 1))) =
     [Print Banner, ReadyCheck 0, Print (Ready 0), ReadyCheck 1, Print (Ready 1),
      ReadyCheck 2, Print (Ready 2), ReadyCheck 3, Print (Ready 3),
      PwmSet 0 1000 0, PwmSet 1 1000 0, PwmSet 2 1000 0, PwmSet 3 1000 0, Print (Fading 0)]"
proof -
  have d: "[0..<NUM_LEDS] = [0, 1, 2, 3]" by (simp add: NUM_LEDS_def upt_rec)
  have good: "\<forall>i < NUM_LEDS. device_is_ready all_writes_fail i" by (simp add: all_writes_fail_def)
  from startup_zeroing_best_effort [OF good, of shipped boot 0]
  have "fst (main shipped all_writes_fail 1) = None \<and>
   take 14 (trace (snd (main shipped all_writes_fail 1))) =
     [Print Banner, ReadyCheck 0, Print (Ready 0), ReadyCheck 1, Print (Ready 1),
      ReadyCheck 2, Print (Ready 2), ReadyCheck 3, Print (Ready 3),
      PwmSet 0 1000 0, PwmSet 1 1000 0, PwmSet 2 1000 0, PwmSet 3 1000 0, Print (Fading 0)]"
    by (auto simp: d shipped_def)
  then show ?thesis by (simp add: all_writes_fail_def)
qed

text \<open>
  C10. For every brightness \<open>b\<close> from 0 to 255, \<open>set_led_brightness\<close> passes the pulse
  width \<open>1000 * b div 100\<close> to \<open>pwm_set_dt\<close> unchanged. For \<open>b > 100\<close> it is greater
  than the period of 1000, for \<open>b \<le> 100\<close> it lies between 0 and the period.
\<close>

theorem set_led_brightness_pulse:
  "new_writes w (set_led_brightness shipped e led b w) = [(led, 1000, brightness_pulse shipped b)] \<and>
   unat (brightness_pulse shipped b) = (1000 * unat b) div 100 \<and>
   (100 < unat b \<longrightarrow> PWM_PERIOD_US shipped < brightness_pulse shipped b) \<and>
   (unat b \<le> 100 \<longrightarrow> 0 \<le> brightness_pulse shipped b \<and> brightness_pulse shipped b \<le> PWM_PERIOD_US shipped)"
proof (intro conjI impI)
  show "new_writes w (set_led_brightness shipped e led b w) = [(led, 1000, brightness_pulse shipped b)]"
    by (simp add: set_led_brightness_def new_writes_def Let_def printk_def emit_def
        pwm_writes_append shipped_def)
  show "unat (brightness_pulse shipped b) = (1000 * unat b) div 100"
    by (rule unat_brightness_pulse)
next
  assume "100 < unat b"
  then have "1000 < (1000 * unat b) div 100" by simp
  then show "PWM_PERIOD_US shipped < brightness_pulse shipped b"
    by (simp add: word_less_nat_alt unat_brightness_pulse) (simp add: shipped_def)
next
  assume "unat b \<le> 100"
  then have "(1000 * unat b) div 100 \<le> 1000" by simp
  then show "brightness_pulse shipped b \<le> PWM_PERIOD_US shipped"
    by (simp add: word_le_nat_alt unat_brightness_pulse) (simp add: shipped_def)
qed simp

theorem set_led_brightness_pulse_witness:
  "100 < unat (150 :: u8) \<and> unat (50 :: u8) \<le> 100 \<and>
   brightness_pulse shipped 150 = 1500 \<and> brightness_pulse shipped 50 = 500 \<and>
   PWM_PERIOD_US shipped < brightness_pulse shipped 150 \<and>
   brightness_pulse shipped 50 \<le> PWM_PERIOD_US shipped \<and>
   new_writes boot (set_led_brightness shipped healthy 0 150 boot) = [(0, 1000, 1500)]"
proof -
  have v: "brightness_pulse shipped 150 = 1500" "brightness_pulse shipped 50 = 500"
    by (simp_all add: brightness_pulse_def shipped_def)
  show ?thesis
    using set_led_brightness_pulse [of boot healthy 0 150] set_led_brightness_pulse [of boot healthy 0 50]
    by (simp add: v)
qed

end
